theory Spec2Isabelle
  imports Complex_Main "HOL-Library.Log_Nat"
begin

section \<open>Machine arithmetic of amixer.cpp\<close>

text \<open>
  The data model is LP64 (Linux on a 64-bit machine, where ALSA lives): \<open>int\<close> has 32 bits,
  \<open>long\<close> has 64 bits and \<open>double\<close> is IEEE 754 binary64, rounded to nearest, ties to even.

  A \<open>long\<close> is an integer between \<open>LONG_MIN\<close> and \<open>LONG_MAX\<close>. Signed overflow of \<open>long\<close>
  arithmetic is undefined behaviour in C++; the model gives a sum or a difference of longs
  the two's complement result of the machine (\<open>long_add\<close>, \<open>long_sub\<close>), so that every value
  it computes is a \<open>long\<close>, and the theorems about the values written and read state the
  bounds under which no overflow occurs. The conversion of a \<open>long\<close> to \<open>int\<close>, which C++
  defines to wrap, wraps in the model too (\<open>int_of_long\<close>).

  A finite double is a dyadic rational, so \<open>double\<close> is \<open>rat\<close> and every floating-point
  operation is the exact operation followed by \<open>rnd\<close>, the rounding to 53 significant bits.
  The exponent range is not modelled: the magnitudes this program computes stay between
  \<open>2^-64\<close> and \<open>2^71\<close>, far inside the range of normal binary64 numbers.
\<close>

type_synonym long = int
type_synonym double = rat

definition LONG_MIN :: long where
  "LONG_MIN = - (2 ^ 63)"

definition LONG_MAX :: long where
  "LONG_MAX = 2 ^ 63 - 1"

definition long_of_int :: "int \<Rightarrow> long" where
  "long_of_int x = (x + 2 ^ 63) mod 2 ^ 64 - 2 ^ 63"

definition long_add :: "long \<Rightarrow> long \<Rightarrow> long" where
  "long_add a b = long_of_int (a + b)"

definition long_sub :: "long \<Rightarrow> long \<Rightarrow> long" where
  "long_sub a b = long_of_int (a - b)"

definition pow2 :: "int \<Rightarrow> rat" where
  "pow2 e = 2 powi e"

text \<open>\<open>ilog2 x\<close> is the binary exponent of a positive \<open>x\<close>: \<open>2^e \<le> x < 2^(e+1)\<close>.\<close>

definition ilog2 :: "rat \<Rightarrow> int" where
  "ilog2 x = (case quotient_of x of (a, b) \<Rightarrow>
     (let e = bitlen a - bitlen b in if pow2 e \<le> x then e else e - 1))"

definition round_even :: "rat \<Rightarrow> int" where
  "round_even m = (let f = \<lfloor>m\<rfloor>; d = m - of_int f in
     if d < 1 / 2 then f else if 1 / 2 < d then f + 1 else if even f then f else f + 1)"

definition rnd :: "rat \<Rightarrow> double" where
  "rnd x = (if x = 0 then 0 else
     (let s = pow2 (ilog2 \<bar>x\<bar> - 52) in sgn x * of_int (round_even (\<bar>x\<bar> / s)) * s))"

text \<open>The relative error of one rounding is at most \<open>2^-53\<close>: the bounds of \<open>rnd x / x\<close>.\<close>

definition ulp_hi :: rat where
  "ulp_hi = 1 + 1 / 2 ^ 53"

definition ulp_lo :: rat where
  "ulp_lo = 1 - 1 / 2 ^ 53"

definition fmul :: "double \<Rightarrow> double \<Rightarrow> double" where
  "fmul a b = rnd (a * b)"

definition fdiv :: "double \<Rightarrow> double \<Rightarrow> double" where
  "fdiv a b = rnd (a / b)"

definition fsub :: "double \<Rightarrow> double \<Rightarrow> double" where
  "fsub a b = rnd (a - b)"

text \<open>Conversion of an \<open>int\<close> or a \<open>long\<close> to \<open>double\<close> (exact up to \<open>2^53\<close>).\<close>

definition double_of_int :: "int \<Rightarrow> double" where
  "double_of_int n = rnd (of_int n)"

text \<open>Rounding to the nearest integer, halfway cases away from zero.\<close>

definition round_half_away :: "rat \<Rightarrow> int" where
  "round_half_away x = (if 0 \<le> x then \<lfloor>x + 1 / 2\<rfloor> else - \<lfloor>- x + 1 / 2\<rfloor>)"

text \<open>
  \<open>lround\<close> of the C library returns a \<open>long\<close>: the rounded value where that is a \<open>long\<close>.
  Where it is not, the C standard leaves the result unspecified; glibc on x86-64 returns
  \<open>LONG_MIN\<close> (the result of the machine's conversion instruction), and so does the model.
\<close>

definition lround :: "double \<Rightarrow> long" where
  "lround x =
     (let r = round_half_away x in if LONG_MIN \<le> r \<and> r \<le> LONG_MAX then r else LONG_MIN)"

text \<open>Conversion of a \<open>long\<close> to \<open>int\<close>: the value modulo \<open>2^32\<close> (C++20).\<close>

definition int_of_long :: "long \<Rightarrow> int" where
  "int_of_long x = (x + 2 ^ 31) mod 2 ^ 32 - 2 ^ 31"

text \<open>\<open>std::clamp(v, lo, hi)\<close>.\<close>

definition clamp :: "'a::linorder \<Rightarrow> 'a \<Rightarrow> 'a \<Rightarrow> 'a" where
  "clamp v lo hi = (if v < lo then lo else if hi < v then hi else v)"


section \<open>The ALSA mixer, as amixer.cpp sees it\<close>

text \<open>
  A mixer element is a handle (\<open>snd_mixer_elem_t *\<close>), \<open>None\<close> being the null pointer.
  A channel selector is a value of the enumeration \<open>snd_mixer_selem_channel_id_t\<close> of
  \<open>alsa/mixer.h\<close>, where \<open>SND_MIXER_SCHN_FRONT_LEFT = 0\<close>, \<open>SND_MIXER_SCHN_FRONT_RIGHT = 1\<close>
  and \<open>SND_MIXER_SCHN_MONO = SND_MIXER_SCHN_FRONT_LEFT\<close>.
\<close>

type_synonym elem = nat
type_synonym elem_ptr = "elem option"
type_synonym channel_id = int

definition SND_MIXER_SCHN_FRONT_LEFT :: channel_id where
  "SND_MIXER_SCHN_FRONT_LEFT = 0"

definition SND_MIXER_SCHN_FRONT_RIGHT :: channel_id where
  "SND_MIXER_SCHN_FRONT_RIGHT = 1"

definition SND_MIXER_SCHN_MONO :: channel_id where
  "SND_MIXER_SCHN_MONO = SND_MIXER_SCHN_FRONT_LEFT"

text \<open>
  What ALSA answers for one sound card: whether \<open>snd_mixer_open\<close>, \<open>snd_mixer_attach\<close>,
  \<open>snd_mixer_selem_register\<close> and \<open>snd_mixer_load\<close> succeed, and the elements that
  \<open>snd_mixer_first_elem\<close> and \<open>snd_mixer_elem_next\<close> enumerate.
\<close>

record device =
  open_ok :: bool
  attach_ok :: bool
  register_ok :: bool
  load_ok :: bool
  elems :: "elem list"

text \<open>
  The answers of the successive calls of \<open>snd_card_next\<close>: a negative return code
  (\<open>CardError\<close>), the index \<open>-1\<close> after the last card (\<open>CardEnd\<close>), or the index of the next
  card with what that card holds. The enumeration is finite, as the list of the elements
  of a card is.
\<close>

datatype card_seq = CardError | CardEnd | Card int device card_seq

text \<open>
  The state of the sound system. The capabilities of an element are fixed; the playback
  level of a channel of an element is a cell that a set call stores to and a get call
  reads: a read returns the value last written. A get call on a cell that holds nothing
  fails (non-zero return code); the return code of a set call is ignored by the source.
  Decibel levels and linear levels are kept apart: every controller of an element uses
  the same one of the two.
\<close>

record alsa =
  selem_name :: "elem \<Rightarrow> string"
  selem_is_active :: "elem \<Rightarrow> bool"
  selem_has_playback_volume :: "elem \<Rightarrow> bool"
  selem_has_playback_channel :: "elem \<Rightarrow> channel_id \<Rightarrow> bool"
  playback_dB_range :: "elem \<Rightarrow> (long \<times> long) option"
  playback_volume_range :: "elem \<Rightarrow> (long \<times> long) option"
  playback_dB :: "elem \<times> channel_id \<Rightarrow> long option"
  playback_volume :: "elem \<times> channel_id \<Rightarrow> long option"
  cards :: card_seq

definition snd_mixer_selem_get_playback_dB_range :: "alsa \<Rightarrow> elem \<Rightarrow> (long \<times> long) option" where
  "snd_mixer_selem_get_playback_dB_range hw e = playback_dB_range hw e"

definition snd_mixer_selem_get_playback_volume_range :: "alsa \<Rightarrow> elem \<Rightarrow> (long \<times> long) option" where
  "snd_mixer_selem_get_playback_volume_range hw e = playback_volume_range hw e"

definition snd_mixer_selem_get_playback_dB :: "elem \<Rightarrow> channel_id \<Rightarrow> alsa \<Rightarrow> long option \<times> alsa" where
  "snd_mixer_selem_get_playback_dB e ch hw = (playback_dB hw (e, ch), hw)"

definition snd_mixer_selem_set_playback_dB :: "elem \<Rightarrow> channel_id \<Rightarrow> long \<Rightarrow> alsa \<Rightarrow> alsa" where
  "snd_mixer_selem_set_playback_dB e ch v hw = hw\<lparr>playback_dB := (playback_dB hw)((e, ch) \<mapsto> v)\<rparr>"

definition snd_mixer_selem_get_playback_volume :: "elem \<Rightarrow> channel_id \<Rightarrow> alsa \<Rightarrow> long option \<times> alsa" where
  "snd_mixer_selem_get_playback_volume e ch hw = (playback_volume hw (e, ch), hw)"

definition snd_mixer_selem_set_playback_volume :: "elem \<Rightarrow> channel_id \<Rightarrow> long \<Rightarrow> alsa \<Rightarrow> alsa" where
  "snd_mixer_selem_set_playback_volume e ch v hw = hw\<lparr>playback_volume := (playback_volume hw)((e, ch) \<mapsto> v)\<rparr>"


section \<open>VolumeController\<close>

datatype VolumeController =
    is_Db: VolumeControllerDb elem_ptr channel_id long long long
  | is_Linear: VolumeControllerLinear elem_ptr channel_id long long long
  | is_Dummy: VolumeControllerDummy elem_ptr channel_id

text \<open>The constructors: the range is queried once and cached as \<open>(min, max, max - min)\<close>.\<close>

definition new_VolumeControllerDb :: "alsa \<Rightarrow> elem_ptr \<Rightarrow> channel_id \<Rightarrow> VolumeController" where
  "new_VolumeControllerDb hw elem ch =
     (case elem of
        None \<Rightarrow> VolumeControllerDb elem ch 0 0 0
      | Some e \<Rightarrow>
          (case snd_mixer_selem_get_playback_dB_range hw e of
             Some (dbMin, dbMax) \<Rightarrow> VolumeControllerDb elem ch dbMin dbMax (long_sub dbMax dbMin)
           | None \<Rightarrow> VolumeControllerDb elem ch 0 0 0))"

definition new_VolumeControllerLinear :: "alsa \<Rightarrow> elem_ptr \<Rightarrow> channel_id \<Rightarrow> VolumeController" where
  "new_VolumeControllerLinear hw elem ch =
     (case elem of
        None \<Rightarrow> VolumeControllerLinear elem ch 0 0 0
      | Some e \<Rightarrow>
          (case snd_mixer_selem_get_playback_volume_range hw e of
             Some (volMin, volMax) \<Rightarrow> VolumeControllerLinear elem ch volMin volMax (long_sub volMax volMin)
           | None \<Rightarrow> VolumeControllerLinear elem ch 0 0 0))"

fun VolumeController_setVolume :: "VolumeController \<Rightarrow> int \<Rightarrow> alsa \<Rightarrow> alsa" where
  "VolumeController_setVolume (VolumeControllerDb mixer_elem channel dbMin dbMax dbRange) volume hw =
     (case mixer_elem of
        None \<Rightarrow> hw
      | Some e \<Rightarrow>
          if dbRange \<le> 0 then hw
          else
            let volumeNorm = clamp (fdiv (double_of_int volume) 100) 0 1;
                dB = long_add dbMin (lround (fmul volumeNorm (double_of_int dbRange)))
            in snd_mixer_selem_set_playback_dB e channel dB hw)"
| "VolumeController_setVolume (VolumeControllerLinear mixer_elem channel volMin volMax volRange) volume hw =
     (case mixer_elem of
        None \<Rightarrow> hw
      | Some e \<Rightarrow>
          if volRange \<le> 0 then hw
          else
            let volumeNorm = clamp (fdiv (double_of_int volume) 100) 0 1;
                vol = long_add volMin (lround (fmul volumeNorm (double_of_int volRange)))
            in snd_mixer_selem_set_playback_volume e channel vol hw)"
| "VolumeController_setVolume (VolumeControllerDummy mixer_elem channel) volume hw = hw"

fun VolumeController_getVolume :: "VolumeController \<Rightarrow> alsa \<Rightarrow> int \<times> alsa" where
  "VolumeController_getVolume (VolumeControllerDb mixer_elem channel dbMin dbMax dbRange) hw =
     (case mixer_elem of
        None \<Rightarrow> (0, hw)
      | Some e \<Rightarrow>
          if dbRange \<le> 0 then (0, hw)
          else
            (case snd_mixer_selem_get_playback_dB e channel hw of
               (None, hw') \<Rightarrow> (0, hw')
             | (Some dB, hw') \<Rightarrow>
                 let volumeNorm = fdiv (double_of_int (long_sub dB dbMin)) (double_of_int dbRange);
                     volume = clamp (int_of_long (lround (fmul volumeNorm 100))) 0 100
                 in (volume, hw')))"
| "VolumeController_getVolume (VolumeControllerLinear mixer_elem channel volMin volMax volRange) hw =
     (case mixer_elem of
        None \<Rightarrow> (0, hw)
      | Some e \<Rightarrow>
          if volRange \<le> 0 then (0, hw)
          else
            (case snd_mixer_selem_get_playback_volume e channel hw of
               (None, hw') \<Rightarrow> (0, hw')
             | (Some vol, hw') \<Rightarrow>
                 let volumeNorm = fdiv (double_of_int (long_sub vol volMin)) (double_of_int volRange);
                     volume = clamp (int_of_long (lround (fmul volumeNorm 100))) 0 100
                 in (volume, hw')))"
| "VolumeController_getVolume (VolumeControllerDummy mixer_elem channel) hw = (0, hw)"

text \<open>The factory \<open>VolumeController::create\<close>.\<close>

definition create :: "alsa \<Rightarrow> elem_ptr \<Rightarrow> channel_id \<Rightarrow> VolumeController" where
  "create hw elem ch =
     (case elem of
        None \<Rightarrow> VolumeControllerDummy elem ch
      | Some e \<Rightarrow>
          if (case snd_mixer_selem_get_playback_dB_range hw e of
                Some (dBMin, dBMax) \<Rightarrow> dBMax > dBMin | None \<Rightarrow> False)
          then new_VolumeControllerDb hw elem ch
          else if (case snd_mixer_selem_get_playback_volume_range hw e of
                Some (volMin, volMax) \<Rightarrow> volMax > volMin | None \<Rightarrow> False)
          then new_VolumeControllerLinear hw elem ch
          else VolumeControllerDummy elem ch)"


section \<open>AMVolume\<close>

record AMVolume =
  name :: string
  hasLeft :: bool
  hasRight :: bool
  card_index :: int
  leftVolumeController :: VolumeController
  rightVolumeController :: VolumeController
  monoVolumeController :: VolumeController

definition new_AMVolume :: "alsa \<Rightarrow> int \<Rightarrow> elem \<Rightarrow> AMVolume" where
  "new_AMVolume hw c e =
     \<lparr> name = selem_name hw e,
       hasLeft = selem_has_playback_channel hw e SND_MIXER_SCHN_FRONT_LEFT,
       hasRight = selem_has_playback_channel hw e SND_MIXER_SCHN_FRONT_RIGHT,
       card_index = c,
       leftVolumeController = create hw (Some e) SND_MIXER_SCHN_FRONT_LEFT,
       rightVolumeController = create hw (Some e) SND_MIXER_SCHN_FRONT_RIGHT,
       monoVolumeController = create hw (Some e) SND_MIXER_SCHN_MONO \<rparr>"

definition AMVolume_getName :: "AMVolume \<Rightarrow> alsa \<Rightarrow> string \<times> alsa" where
  "AMVolume_getName v hw = (name v, hw)"

definition AMVolume_getVolume :: "AMVolume \<Rightarrow> alsa \<Rightarrow> int \<times> alsa" where
  "AMVolume_getVolume v hw =
     (case VolumeController_getVolume (leftVolumeController v) hw of (left, hw1) \<Rightarrow>
      case VolumeController_getVolume (rightVolumeController v) hw1 of (right, hw2) \<Rightarrow>
      case VolumeController_getVolume (monoVolumeController v) hw2 of (mono', hw3) \<Rightarrow>
        (max (max left right) mono', hw3))"

definition AMVolume_getBalance :: "AMVolume \<Rightarrow> alsa \<Rightarrow> int \<times> alsa" where
  "AMVolume_getBalance v hw =
     (if \<not> hasLeft v \<or> \<not> hasRight v then (0, hw)
      else
        case VolumeController_getVolume (leftVolumeController v) hw of (left, hw1) \<Rightarrow>
        case VolumeController_getVolume (rightVolumeController v) hw1 of (right, hw2) \<Rightarrow>
          (right - left, hw2))"

definition AMVolume_setVolume :: "AMVolume \<Rightarrow> int \<Rightarrow> alsa \<Rightarrow> alsa" where
  "AMVolume_setVolume v volume0 hw =
     (let volume = clamp volume0 0 100 in
      if hasLeft v \<and> hasRight v then
        case AMVolume_getBalance v hw of (balance, hw1) \<Rightarrow>
          let balanceNorm = fsub 1 (fdiv (double_of_int \<bar>balance\<bar>) 100) in
          if balance < 0 then
            VolumeController_setVolume (rightVolumeController v)
              (int_of_long (lround (fmul (double_of_int volume) balanceNorm)))
              (VolumeController_setVolume (leftVolumeController v) volume hw1)
          else if balance > 0 then
            VolumeController_setVolume (rightVolumeController v) volume
              (VolumeController_setVolume (leftVolumeController v)
                 (int_of_long (lround (fmul (double_of_int volume) balanceNorm))) hw1)
          else
            VolumeController_setVolume (rightVolumeController v) volume
              (VolumeController_setVolume (leftVolumeController v) volume hw1)
      else VolumeController_setVolume (monoVolumeController v) volume hw)"

definition AMVolume_setBalance :: "AMVolume \<Rightarrow> int \<Rightarrow> alsa \<Rightarrow> alsa" where
  "AMVolume_setBalance v balance0 hw =
     (if \<not> hasLeft v \<or> \<not> hasRight v then hw
      else
        let balance = clamp balance0 (- 100) 100;
            balanceNorm = fdiv (fsub 100 (double_of_int \<bar>balance\<bar>)) 100
        in
        case AMVolume_getVolume v hw of (volume, hw1) \<Rightarrow>
          if balance < 0 then
            VolumeController_setVolume (rightVolumeController v)
              (int_of_long (lround (fmul (double_of_int volume) balanceNorm)))
              (VolumeController_setVolume (leftVolumeController v) volume hw1)
          else if balance > 0 then
            VolumeController_setVolume (rightVolumeController v) volume
              (VolumeController_setVolume (leftVolumeController v)
                 (int_of_long (lround (fmul (double_of_int volume) balanceNorm))) hw1)
          else
            VolumeController_setVolume (rightVolumeController v) volume
              (VolumeController_setVolume (leftVolumeController v) volume hw1))"


section \<open>AMixer\<close>

record AMixer =
  channelsList :: "AMVolume list"
  mixers :: "int list"

text \<open>The loop over the elements of one loaded mixer.\<close>

fun scan_elems :: "alsa \<Rightarrow> int \<Rightarrow> elem list \<Rightarrow> AMVolume list \<Rightarrow> AMVolume list" where
  "scan_elems hw c [] chans = chans"
| "scan_elems hw c (e # es) chans =
     (if \<not> selem_is_active hw e then scan_elems hw c es chans
      else if \<not> selem_has_playback_volume hw e then scan_elems hw c es chans
      else scan_elems hw c es (chans @ [new_AMVolume hw c e]))"

text \<open>
  The loop over the cards. A mixer that was opened, attached, registered and loaded is
  kept in \<open>mixers\<close> (under its card index); one that fails after \<open>snd_mixer_open\<close> is closed
  again and leaves no trace.
\<close>

fun scan_cards :: "alsa \<Rightarrow> card_seq \<Rightarrow> AMixer \<Rightarrow> AMixer" where
  "scan_cards hw CardError m = m"
| "scan_cards hw CardEnd m = m"
| "scan_cards hw (Card c dev rest) m =
     (if c < 0 then m
      else if open_ok dev then
        (if attach_ok dev \<and> register_ok dev \<and> load_ok dev then
           scan_cards hw rest
             (m\<lparr>mixers := mixers m @ [c],
                channelsList := scan_elems hw c (elems dev) (channelsList m)\<rparr>)
         else scan_cards hw rest m)
      else scan_cards hw rest m)"

definition new_AMixer :: "alsa \<Rightarrow> AMixer" where
  "new_AMixer hw = scan_cards hw (cards hw) \<lparr>channelsList = [], mixers = []\<rparr>"

text \<open>The cards that the loop of the constructor visits, in the order of their enumeration.\<close>

fun visited :: "card_seq \<Rightarrow> (int \<times> device) list" where
  "visited CardError = []"
| "visited CardEnd = []"
| "visited (Card c dev rest) = (if c < 0 then [] else (c, dev) # visited rest)"


section \<open>The cells an operation may write\<close>

text \<open>
  A cell of the hardware state is the decibel level or the linear level of one channel of
  one element. A controller addresses the cell of its element, channel selector and scale.
  \<open>writes_only S hw hw'\<close>: the state \<open>hw'\<close> differs from \<open>hw\<close> at most in the cells of \<open>S\<close>.
\<close>

datatype cell = DbCell elem channel_id | VolumeCell elem channel_id

fun controller_cells :: "VolumeController \<Rightarrow> cell set" where
  "controller_cells (VolumeControllerDb (Some e) ch dbMin dbMax dbRange) = {DbCell e ch}"
| "controller_cells (VolumeControllerLinear (Some e) ch volMin volMax volRange) = {VolumeCell e ch}"
| "controller_cells (VolumeControllerDb None ch dbMin dbMax dbRange) = {}"
| "controller_cells (VolumeControllerLinear None ch volMin volMax volRange) = {}"
| "controller_cells (VolumeControllerDummy elem ch) = {}"

definition writes_only :: "cell set \<Rightarrow> alsa \<Rightarrow> alsa \<Rightarrow> bool" where
  "writes_only S hw hw' \<longleftrightarrow>
     (\<forall>e ch. DbCell e ch \<notin> S \<longrightarrow> playback_dB hw' (e, ch) = playback_dB hw (e, ch)) \<and>
     (\<forall>e ch. VolumeCell e ch \<notin> S \<longrightarrow> playback_volume hw' (e, ch) = playback_volume hw (e, ch)) \<and>
     hw'\<lparr>playback_dB := playback_dB hw, playback_volume := playback_volume hw\<rparr> = hw"


section \<open>Example hardware\<close>

text \<open>
  A card with one stereo element, number 7, with a decibel range of -51.00 dB to 0 dB, its
  left channel at -25.50 dB and its right channel at -12.75 dB.
\<close>

definition speaker_hw :: alsa where
  "speaker_hw =
     \<lparr> selem_name = (\<lambda>e. ''Speaker''),
       selem_is_active = (\<lambda>e. True),
       selem_has_playback_volume = (\<lambda>e. True),
       selem_has_playback_channel = (\<lambda>e ch. ch = 0 \<or> ch = 1),
       playback_dB_range = (\<lambda>e. Some (- 5100, 0)),
       playback_volume_range = (\<lambda>e. Some (0, 87)),
       playback_dB = [(7, 0) \<mapsto> - 2550, (7, 1) \<mapsto> - 1275],
       playback_volume = Map.empty,
       cards = Card 0 \<lparr>open_ok = True, attach_ok = True, register_ok = True, load_ok = True,
                       elems = [7]\<rparr> CardEnd \<rparr>"

definition speaker :: AMVolume where
  "speaker = new_AMVolume speaker_hw 0 7"

text \<open>
  A card with one mono element, number 3, without decibel information, with a linear range
  of 0 to 100 and its only channel at 20.
\<close>

definition mic_hw :: alsa where
  "mic_hw =
     \<lparr> selem_name = (\<lambda>e. ''Mic''),
       selem_is_active = (\<lambda>e. True),
       selem_has_playback_volume = (\<lambda>e. True),
       selem_has_playback_channel = (\<lambda>e ch. ch = 0),
       playback_dB_range = (\<lambda>e. None),
       playback_volume_range = (\<lambda>e. Some (0, 100)),
       playback_dB = Map.empty,
       playback_volume = [(3, 0) \<mapsto> 20],
       cards = Card 0 \<lparr>open_ok = True, attach_ok = True, register_ok = True, load_ok = True,
                       elems = [3]\<rparr> CardEnd \<rparr>"

definition mic :: AMVolume where
  "mic = new_AMVolume mic_hw 0 3"

text \<open>
  A card with one mono element, number 5, without decibel information, with a linear range
  of 0 to 33.
\<close>

definition beep_hw :: alsa where
  "beep_hw =
     \<lparr> selem_name = (\<lambda>e. ''Beep''),
       selem_is_active = (\<lambda>e. True),
       selem_has_playback_volume = (\<lambda>e. True),
       selem_has_playback_channel = (\<lambda>e ch. ch = 0),
       playback_dB_range = (\<lambda>e. None),
       playback_volume_range = (\<lambda>e. Some (0, 33)),
       playback_dB = Map.empty,
       playback_volume = [(5, 0) \<mapsto> 0],
       cards = Card 0 \<lparr>open_ok = True, attach_ok = True, register_ok = True, load_ok = True,
                       elems = [5]\<rparr> CardEnd \<rparr>"

text \<open>
  A card with one mono element, number 9, without decibel information, with a linear range
  of 0 to 25.
\<close>

definition tick_hw :: alsa where
  "tick_hw =
     \<lparr> selem_name = (\<lambda>e. ''Tick''),
       selem_is_active = (\<lambda>e. True),
       selem_has_playback_volume = (\<lambda>e. True),
       selem_has_playback_channel = (\<lambda>e ch. ch = 0),
       playback_dB_range = (\<lambda>e. None),
       playback_volume_range = (\<lambda>e. Some (0, 25)),
       playback_dB = Map.empty,
       playback_volume = [(9, 0) \<mapsto> 0],
       cards = Card 0 \<lparr>open_ok = True, attach_ok = True, register_ok = True, load_ok = True,
                       elems = [9]\<rparr> CardEnd \<rparr>"

text \<open>
  A card with one stereo element, number 11, without decibel information, with a linear
  range of 0 to 100, its left channel at 25 and its right channel at 10.
\<close>

definition line_hw :: alsa where
  "line_hw =
     \<lparr> selem_name = (\<lambda>e. ''Line''),
       selem_is_active = (\<lambda>e. True),
       selem_has_playback_volume = (\<lambda>e. True),
       selem_has_playback_channel = (\<lambda>e ch. ch = 0 \<or> ch = 1),
       playback_dB_range = (\<lambda>e. None),
       playback_volume_range = (\<lambda>e. Some (0, 100)),
       playback_dB = Map.empty,
       playback_volume = [(11, 0) \<mapsto> 25, (11, 1) \<mapsto> 10],
       cards = Card 0 \<lparr>open_ok = True, attach_ok = True, register_ok = True, load_ok = True,
                       elems = [11]\<rparr> CardEnd \<rparr>"

definition line :: AMVolume where
  "line = new_AMVolume line_hw 0 11"


section \<open>Properties of the rounding\<close>

lemma pow2_pos: "0 < pow2 e"
  by (simp add: pow2_def)

lemma pow2_add: "pow2 (a + b) = pow2 a * pow2 b"
  by (simp add: pow2_def power_int_add)

lemma pow2_diff: "pow2 (a - b) = pow2 a / pow2 b"
  by (simp add: pow2_def power_int_diff)

lemma pow2_nat: "0 \<le> e \<Longrightarrow> pow2 e = 2 ^ nat e"
  by (simp add: pow2_def power_int_def)

lemma pow2_mono: "a \<le> b \<Longrightarrow> pow2 a \<le> pow2 b"
  by (simp add: pow2_def power_int_increasing)

lemma pow2_strict_mono: "a < b \<Longrightarrow> pow2 a < pow2 b"
  by (simp add: pow2_def power_int_strict_increasing)

lemma pow2_less_cancel: "pow2 a < pow2 b \<Longrightarrow> a < b"
  using pow2_mono [of b a] by (cases "a < b") auto

lemma pow2_le_cancel: "pow2 a \<le> pow2 b \<Longrightarrow> a \<le> b"
  using pow2_strict_mono [of b a] by (cases "a \<le> b") auto

lemma pow2_scale: "2 ^ 52 * pow2 (e - 52) = pow2 e" "2 ^ 53 * pow2 (e - 52) = pow2 (e + 1)"
  by (simp_all add: pow2_diff pow2_add) (simp_all add: pow2_def)

lemma ilog2_bounds:
  assumes "0 < x"
  shows "pow2 (ilog2 x) \<le> x" and "x < pow2 (ilog2 x + 1)"
proof -
  obtain a b where q: "quotient_of x = (a, b)"
    by (cases "quotient_of x")
  have b: "0 < b"
    using q by (rule quotient_of_denom_pos)
  have x: "x = of_int a / of_int b"
    using q by (rule quotient_of_div)
  have a: "0 < a"
    using assms b x by (simp add: zero_less_divide_iff)
  define la where "la = bitlen a"
  define lb where "lb = bitlen b"
  have la: "1 \<le> la" and lb: "1 \<le> lb"
    using a b bitlen_eq_zero_iff [of a] bitlen_eq_zero_iff [of b] bitlen_nonneg [of a] bitlen_nonneg [of b]
    by (auto simp: la_def lb_def)
  have "2 ^ nat (la - 1) \<le> a" "a < 2 ^ nat la" "2 ^ nat (lb - 1) \<le> b" "b < 2 ^ nat lb"
    using bitlen_bounds [OF a] bitlen_bounds [OF b] by (auto simp: la_def lb_def)
  then have "(of_int (2 ^ nat (la - 1)) :: rat) \<le> of_int a" "(of_int a :: rat) < of_int (2 ^ nat la)"
    "(of_int (2 ^ nat (lb - 1)) :: rat) \<le> of_int b" "(of_int b :: rat) < of_int (2 ^ nat lb)"
    by (simp_all only: of_int_le_iff of_int_less_iff)
  then have ra: "pow2 (la - 1) \<le> of_int a" "of_int a < pow2 la"
    and rb: "pow2 (lb - 1) \<le> of_int b" "of_int b < pow2 lb"
    using la lb by (simp_all add: pow2_nat)
  have up: "x < pow2 (la - lb + 1)"
  proof -
    have "of_int a < pow2 (la - lb + 1) * pow2 (lb - 1)"
      using ra(2) by (simp flip: pow2_add)
    also have "\<dots> \<le> pow2 (la - lb + 1) * of_int b"
      using rb(1) pow2_pos [of "la - lb + 1"] by (simp add: mult_left_mono)
    finally show ?thesis
      using b by (simp add: x pos_divide_less_eq)
  qed
  have lo: "pow2 (la - lb - 1) \<le> x"
  proof -
    have "pow2 (la - lb - 1) * of_int b \<le> pow2 (la - lb - 1) * pow2 lb"
      using rb(2) pow2_pos [of "la - lb - 1"] by (simp add: mult_left_mono)
    also have "\<dots> \<le> of_int a"
      using ra(1) by (simp flip: pow2_add)
    finally show ?thesis
      using b by (simp add: x pos_le_divide_eq)
  qed
  have il: "ilog2 x = (if pow2 (la - lb) \<le> x then la - lb else la - lb - 1)"
    by (simp add: ilog2_def q la_def lb_def Let_def)
  show "pow2 (ilog2 x) \<le> x"
    using lo by (simp add: il)
  show "x < pow2 (ilog2 x + 1)"
    using up by (simp add: il not_le)
qed

lemma ilog2_unique:
  assumes "pow2 k \<le> x" and "x < pow2 (k + 1)"
  shows "ilog2 x = k"
proof -
  have x: "0 < x"
    using assms(1) pow2_pos [of k] by simp
  have "pow2 k < pow2 (ilog2 x + 1)"
    using assms(1) ilog2_bounds(2) [OF x] by simp
  moreover have "pow2 (ilog2 x) < pow2 (k + 1)"
    using assms(2) ilog2_bounds(1) [OF x] by simp
  ultimately show ?thesis
    using pow2_less_cancel [of k "ilog2 x + 1"] pow2_less_cancel [of "ilog2 x" "k + 1"] by simp
qed

lemma ilog2_mono:
  assumes "0 < x" and "x \<le> y"
  shows "ilog2 x \<le> ilog2 y"
proof -
  have y: "0 < y"
    using assms by simp
  have "pow2 (ilog2 x) < pow2 (ilog2 y + 1)"
    using ilog2_bounds(1) [OF assms(1)] ilog2_bounds(2) [OF y] assms(2) by simp
  then show ?thesis
    using pow2_less_cancel [of "ilog2 x" "ilog2 y + 1"] by simp
qed


lemma round_even_of_int: "round_even (of_int k) = k"
  by (simp add: round_even_def)

lemma round_even_cases:
  "round_even m = \<lfloor>m\<rfloor> \<and> m - of_int \<lfloor>m\<rfloor> \<le> 1 / 2 \<or>
   round_even m = \<lfloor>m\<rfloor> + 1 \<and> 1 / 2 \<le> m - of_int \<lfloor>m\<rfloor>"
  by (auto simp: round_even_def Let_def)

lemma round_even_error: "\<bar>of_int (round_even m) - m\<bar> \<le> 1 / 2"
proof -
  have "of_int \<lfloor>m\<rfloor> \<le> m" "m < of_int \<lfloor>m\<rfloor> + 1"
    by linarith+
  then show ?thesis
    using round_even_cases [of m] by auto
qed

lemma round_even_mono:
  assumes "m \<le> n"
  shows "round_even m \<le> round_even n"
proof (cases "\<lfloor>m\<rfloor> = \<lfloor>n\<rfloor>")
  case True
  then have "m - of_int \<lfloor>m\<rfloor> \<le> n - of_int \<lfloor>n\<rfloor>"
    using assms by simp
  then show ?thesis
    using True by (auto simp: round_even_def Let_def)
next
  case False
  then have "\<lfloor>m\<rfloor> + 1 \<le> \<lfloor>n\<rfloor>"
    using floor_mono [OF assms] by simp
  then show ?thesis
    using round_even_cases [of m] round_even_cases [of n] by auto
qed

lemma round_even_ge: "of_int a \<le> m \<Longrightarrow> a \<le> round_even m"
  using round_even_mono [of "of_int a" m] by (simp add: round_even_of_int)

lemma round_even_le: "m \<le> of_int b \<Longrightarrow> round_even m \<le> b"
  using round_even_mono [of m "of_int b"] by (simp add: round_even_of_int)

lemma rnd_0: "rnd 0 = 0"
  by (simp add: rnd_def)

lemma rnd_minus: "rnd (- x) = - rnd x"
  by (simp add: rnd_def Let_def)

lemma rnd_pos:
  "0 < x \<Longrightarrow> rnd x = of_int (round_even (x / pow2 (ilog2 x - 52))) * pow2 (ilog2 x - 52)"
  by (simp add: rnd_def Let_def)

lemma scaled_bounds:
  assumes "0 < x"
  shows "2 ^ 52 \<le> x / pow2 (ilog2 x - 52)" and "x / pow2 (ilog2 x - 52) \<le> 2 ^ 53"
proof -
  show "2 ^ 52 \<le> x / pow2 (ilog2 x - 52)"
    using pow2_scale(1) [of "ilog2 x"] ilog2_bounds(1) [OF assms] pow2_pos [of "ilog2 x - 52"] by (simp add: pos_le_divide_eq)
  show "x / pow2 (ilog2 x - 52) \<le> 2 ^ 53"
    using pow2_scale(2) [of "ilog2 x"] ilog2_bounds(2) [OF assms] pow2_pos [of "ilog2 x - 52"] by (simp add: pos_divide_le_eq)
qed

lemma rnd_binade:
  assumes "0 < x"
  shows "pow2 (ilog2 x) \<le> rnd x" and "rnd x \<le> pow2 (ilog2 x + 1)"
proof -
  let ?s = "pow2 (ilog2 x - 52)"
  let ?r = "round_even (x / ?s)"
  have s: "0 < ?s"
    by (rule pow2_pos)
  have "2 ^ 52 \<le> ?r"
    using round_even_ge [of "2 ^ 52" "x / ?s"] scaled_bounds(1) [OF assms] by simp
  then have "(2 :: rat) ^ 52 \<le> of_int ?r"
    by (metis of_int_le_iff of_int_numeral of_int_power)
  then have "2 ^ 52 * ?s \<le> of_int ?r * ?s"
    using s by (simp add: mult_right_mono)
  moreover have "2 ^ 52 * ?s = pow2 (ilog2 x)"
    by (rule pow2_scale)
  ultimately show "pow2 (ilog2 x) \<le> rnd x"
    using assms by (simp add: rnd_pos)
  have "?r \<le> 2 ^ 53"
    using round_even_le [of "x / ?s" "2 ^ 53"] scaled_bounds(2) [OF assms] by simp
  then have "of_int ?r \<le> (2 :: rat) ^ 53"
    by (metis of_int_le_iff of_int_numeral of_int_power)
  then have "of_int ?r * ?s \<le> 2 ^ 53 * ?s"
    using s by (simp add: mult_right_mono)
  moreover have "2 ^ 53 * ?s = pow2 (ilog2 x + 1)"
    by (rule pow2_scale)
  ultimately show "rnd x \<le> pow2 (ilog2 x + 1)"
    using assms by (simp add: rnd_pos)
qed

lemma rnd_pos_pos: "0 < x \<Longrightarrow> 0 < rnd x"
  using rnd_binade(1) [of x] pow2_pos [of "ilog2 x"] by simp

lemma rnd_mono_pos:
  assumes "0 < x" and "x \<le> y"
  shows "rnd x \<le> rnd y"
proof (cases "ilog2 x = ilog2 y")
  case True
  have y: "0 < y"
    using assms by simp
  let ?s = "pow2 (ilog2 y - 52)"
  have "x / ?s \<le> y / ?s"
    using assms(2) pow2_pos [of "ilog2 y - 52"] by (simp add: divide_right_mono)
  then have "round_even (x / ?s) \<le> round_even (y / ?s)"
    by (rule round_even_mono)
  then have "(of_int (round_even (x / ?s)) :: rat) * ?s \<le> of_int (round_even (y / ?s)) * ?s"
    using pow2_pos [of "ilog2 y - 52"] by (simp add: mult_right_mono)
  then show ?thesis
    using assms(1) y True by (simp add: rnd_pos)
next
  case False
  have y: "0 < y"
    using assms by simp
  have "ilog2 x + 1 \<le> ilog2 y"
    using False ilog2_mono [OF assms] by simp
  then have "pow2 (ilog2 x + 1) \<le> pow2 (ilog2 y)"
    by (rule pow2_mono)
  then show ?thesis
    using rnd_binade(2) [OF assms(1)] rnd_binade(1) [OF y] by simp
qed

lemma rnd_mono:
  assumes "x \<le> y"
  shows "rnd x \<le> rnd y"
proof -
  consider "0 < x" | "x = 0" | "x < 0" "0 \<le> y" | "x < 0" "y < 0"
    by linarith
  then show ?thesis
  proof cases
    case 1
    then show ?thesis using assms by (rule rnd_mono_pos)
  next
    case 2
    then show ?thesis
      using assms rnd_pos_pos [of y] by (cases "y = 0") (auto simp: rnd_0)
  next
    case 3
    have "rnd x < 0"
      using rnd_pos_pos [of "- x"] 3(1) by (simp add: rnd_minus)
    moreover have "0 \<le> rnd y"
      using rnd_pos_pos [of y] 3(2) by (cases "y = 0") (auto simp: rnd_0)
    ultimately show ?thesis by simp
  next
    case 4
    then have "rnd (- y) \<le> rnd (- x)"
      using assms by (intro rnd_mono_pos) auto
    then show ?thesis by (simp add: rnd_minus)
  qed
qed

lemma rnd_error_pos:
  assumes "0 < x"
  shows "\<bar>rnd x - x\<bar> \<le> x / 2 ^ 53"
proof -
  let ?s = "pow2 (ilog2 x - 52)"
  let ?m = "x / ?s"
  have s: "0 < ?s"
    by (rule pow2_pos)
  have "rnd x - x = (of_int (round_even ?m) - ?m) * ?s"
    using assms s by (simp add: rnd_pos algebra_simps)
  then have "\<bar>rnd x - x\<bar> = \<bar>of_int (round_even ?m) - ?m\<bar> * ?s"
    using s by (simp add: abs_mult)
  also have "\<dots> \<le> 1 / 2 * ?s"
    using round_even_error [of ?m] s by (intro mult_right_mono) auto
  also have "\<dots> = pow2 (ilog2 x) / 2 ^ 53"
    using pow2_diff [of "ilog2 x" 52] by (simp add: pow2_def)
  also have "\<dots> \<le> x / 2 ^ 53"
    using ilog2_bounds(1) [OF assms] by (simp add: divide_right_mono)
  finally show ?thesis .
qed

lemma rnd_error: "\<bar>rnd x - x\<bar> \<le> \<bar>x\<bar> / 2 ^ 53"
proof -
  consider "0 < x" | "x = 0" | "x < 0"
    by linarith
  then show ?thesis
  proof cases
    case 1
    then show ?thesis using rnd_error_pos [of x] by simp
  next
    case 2
    then show ?thesis by (simp add: rnd_0)
  next
    case 3
    then have "\<bar>rnd (- x) - (- x)\<bar> \<le> (- x) / 2 ^ 53"
      by (intro rnd_error_pos) simp
    moreover have "\<bar>rnd (- x) - (- x)\<bar> = \<bar>rnd x - x\<bar>"
      by (simp add: rnd_minus abs_minus_commute)
    ultimately show ?thesis using 3 by simp
  qed
qed

lemma rnd_of_int:
  assumes "\<bar>n\<bar> \<le> 2 ^ 53"
  shows "rnd (of_int n) = of_int n"
proof -
  have pos: "rnd (of_int k) = of_int k" if k: "0 < k" "k \<le> 2 ^ 53" for k :: int
  proof -
    let ?x = "of_int k :: rat"
    have x: "0 < ?x"
      using k by simp
    have "?x \<le> 2 ^ 53"
      using k(2) by (metis of_int_le_iff of_int_numeral of_int_power)
    then have "pow2 (ilog2 ?x) \<le> pow2 53"
      using ilog2_bounds(1) [OF x] by (simp add: pow2_def)
    then have e: "ilog2 ?x \<le> 53"
      by (rule pow2_le_cancel)
    show ?thesis
    proof (cases "ilog2 ?x = 53")
      case True
      then have "2 ^ 53 \<le> ?x"
        using ilog2_bounds(1) [OF x] by (simp add: pow2_def)
      then have "?x = 2 ^ 53"
        using \<open>?x \<le> 2 ^ 53\<close> by simp
      moreover have "rnd (2 ^ 53) = 2 ^ 53"
        by code_simp
      ultimately show ?thesis by simp
    next
      case False
      define j where "j = nat (52 - ilog2 ?x)"
      have j: "ilog2 ?x - 52 = - int j"
        using e False by (simp add: j_def)
      have s: "pow2 (ilog2 ?x - 52) = 1 / 2 ^ j"
        by (simp add: j pow2_def power_int_minus_divide)
      have "?x / pow2 (ilog2 ?x - 52) = of_int (k * 2 ^ j)"
        by (simp add: s)
      then have "round_even (?x / pow2 (ilog2 ?x - 52)) = k * 2 ^ j"
        by (simp only: round_even_of_int)
      then show ?thesis
        using x by (simp add: rnd_pos s)
    qed
  qed
  consider "0 < n" | "n = 0" | "n < 0"
    by linarith
  then show ?thesis
  proof cases
    case 1
    then show ?thesis using pos [of n] assms by simp
  next
    case 2
    then show ?thesis by (simp add: rnd_0)
  next
    case 3
    then have "rnd (of_int (- n)) = of_int (- n)"
      using assms by (intro pos) auto
    then show ?thesis by (simp add: rnd_minus)
  qed
qed

lemma round_half_away_of_int: "round_half_away (of_int n) = n"
proof -
  have "\<lfloor>of_int k + 1 / 2 :: rat\<rfloor> = k" for k :: int
    by linarith
  from this [of n] this [of "- n"] show ?thesis
    by (simp add: round_half_away_def)
qed

lemma round_half_away_error: "\<bar>of_int (round_half_away x) - x\<bar> \<le> 1 / 2"
proof (cases "0 \<le> x")
  case True
  have "of_int \<lfloor>x + 1 / 2\<rfloor> \<le> x + 1 / 2" "x + 1 / 2 < of_int \<lfloor>x + 1 / 2\<rfloor> + 1"
    by linarith+
  then have "\<bar>of_int \<lfloor>x + 1 / 2\<rfloor> - x\<bar> \<le> 1 / 2"
    by linarith
  then show ?thesis
    using True by (simp only: round_half_away_def if_True)
next
  case False
  have "of_int \<lfloor>- x + 1 / 2\<rfloor> \<le> - x + 1 / 2" "- x + 1 / 2 < of_int \<lfloor>- x + 1 / 2\<rfloor> + 1"
    by linarith+
  then have "\<bar>of_int (- \<lfloor>- x + 1 / 2\<rfloor>) - x\<bar> \<le> 1 / 2"
    by (simp only: of_int_minus)
  then show ?thesis
    using False by (simp only: round_half_away_def if_False)
qed

lemma round_half_away_mono:
  assumes "x \<le> y"
  shows "round_half_away x \<le> round_half_away y"
proof -
  consider "0 \<le> x" | "x < 0" "0 \<le> y" | "x < 0" "y < 0"
    by linarith
  then show ?thesis
  proof cases
    case 1
    then show ?thesis
      using assms by (simp add: round_half_away_def floor_mono)
  next
    case 2
    have "0 \<le> \<lfloor>- x + 1 / 2\<rfloor>" "0 \<le> \<lfloor>y + 1 / 2\<rfloor>"
      using 2 by simp_all
    then have "- \<lfloor>- x + 1 / 2\<rfloor> \<le> \<lfloor>y + 1 / 2\<rfloor>"
      by linarith
    then show ?thesis
      using 2 by (simp only: round_half_away_def if_True if_False not_le [symmetric])
  next
    case 3
    then show ?thesis
      using assms by (simp add: round_half_away_def floor_mono)
  qed
qed


section \<open>Reading never writes; percentages stay in range\<close>

lemma clamp_bounds: "lo \<le> hi \<Longrightarrow> lo \<le> clamp v lo hi \<and> clamp v lo hi \<le> hi"
  by (auto simp: clamp_def)

lemma clamp_idem: "lo \<le> hi \<Longrightarrow> clamp (clamp v lo hi) lo hi = clamp v lo hi"
  by (auto simp: clamp_def)

lemma VolumeController_getVolume_state: "snd (VolumeController_getVolume c hw) = hw"
  by (cases c)
    (simp_all add: snd_mixer_selem_get_playback_dB_def snd_mixer_selem_get_playback_volume_def
      Let_def split: option.splits)

lemma VolumeController_getVolume_range:
  "0 \<le> fst (VolumeController_getVolume c hw) \<and> fst (VolumeController_getVolume c hw) \<le> 100"
  by (cases c)
    (simp_all add: snd_mixer_selem_get_playback_dB_def snd_mixer_selem_get_playback_volume_def
      Let_def clamp_def split: option.splits)

lemma VolumeController_getVolume_eq:
  "VolumeController_getVolume c hw = (fst (VolumeController_getVolume c hw), hw)"
  using VolumeController_getVolume_state [of c hw] by (simp add: prod_eq_iff)

lemma AMVolume_getVolume_eq:
  "AMVolume_getVolume v hw =
     (max (max (fst (VolumeController_getVolume (leftVolumeController v) hw))
               (fst (VolumeController_getVolume (rightVolumeController v) hw)))
          (fst (VolumeController_getVolume (monoVolumeController v) hw)), hw)"
  unfolding AMVolume_getVolume_def
  by (subst VolumeController_getVolume_eq [of "leftVolumeController v"],
      subst VolumeController_getVolume_eq [of "rightVolumeController v"],
      subst VolumeController_getVolume_eq [of "monoVolumeController v"]) simp

lemma AMVolume_getBalance_eq:
  "AMVolume_getBalance v hw =
     ((if hasLeft v \<and> hasRight v
       then fst (VolumeController_getVolume (rightVolumeController v) hw)
          - fst (VolumeController_getVolume (leftVolumeController v) hw)
       else 0), hw)"
  unfolding AMVolume_getBalance_def
  by (subst VolumeController_getVolume_eq [of "leftVolumeController v"],
      subst VolumeController_getVolume_eq [of "rightVolumeController v"]) auto

text \<open>
  Claim C5. For every ChannelVolume and every hardware state, \<open>getVolume()\<close> returns the
  maximum of what the left, the right and the mono controller's \<open>getVolume()\<close> return (each
  read on the same hardware state, since reading does not change it), whether the channel
  is mono or stereo.
\<close>

theorem C5_getVolume_is_max:
  "fst (AMVolume_getVolume v hw) =
     max (max (fst (VolumeController_getVolume (leftVolumeController v) hw))
              (fst (VolumeController_getVolume (rightVolumeController v) hw)))
         (fst (VolumeController_getVolume (monoVolumeController v) hw))"
  by (simp add: AMVolume_getVolume_eq)

text \<open>
  Claim C6. For every ChannelVolume and every hardware state, \<open>getBalance()\<close> returns 0
  when the channel is not stereo, and otherwise the right controller's \<open>getVolume()\<close> minus
  the left controller's; the result is always between -100 and 100.
\<close>

theorem C6_getBalance:
  "fst (AMVolume_getBalance v hw) =
     (if hasLeft v \<and> hasRight v
      then fst (VolumeController_getVolume (rightVolumeController v) hw)
         - fst (VolumeController_getVolume (leftVolumeController v) hw)
      else 0)
   \<and> - 100 \<le> fst (AMVolume_getBalance v hw) \<and> fst (AMVolume_getBalance v hw) \<le> 100"
  using VolumeController_getVolume_range [of "rightVolumeController v" hw]
    VolumeController_getVolume_range [of "leftVolumeController v" hw]
  by (simp add: AMVolume_getBalance_eq)

text \<open>
  Claim C8. For every ChannelVolume and every hardware state, \<open>setVolume\<close> acts on its
  argument clamped to [0,100] and \<open>setBalance\<close> on its argument clamped to [-100,100]: so
  \<open>setVolume(150)\<close> leaves the hardware in the same state as \<open>setVolume(100)\<close>,
  \<open>setVolume(-10)\<close> as \<open>setVolume(0)\<close>, \<open>setBalance(150)\<close> as \<open>setBalance(100)\<close> and
  \<open>setBalance(-150)\<close> as \<open>setBalance(-100)\<close>.
\<close>

theorem C8_clamps:
  "AMVolume_setVolume v x hw = AMVolume_setVolume v (clamp x 0 100) hw
   \<and> AMVolume_setBalance v b hw = AMVolume_setBalance v (clamp b (- 100) 100) hw
   \<and> AMVolume_setVolume v 150 hw = AMVolume_setVolume v 100 hw
   \<and> AMVolume_setVolume v (- 10) hw = AMVolume_setVolume v 0 hw
   \<and> AMVolume_setBalance v 150 hw = AMVolume_setBalance v 100 hw
   \<and> AMVolume_setBalance v (- 150) hw = AMVolume_setBalance v (- 100) hw"
proof -
  have vol: "AMVolume_setVolume v y hw = AMVolume_setVolume v (clamp y 0 100) hw" for y
    by (simp add: AMVolume_setVolume_def clamp_idem)
  have bal: "AMVolume_setBalance v y hw = AMVolume_setBalance v (clamp y (- 100) 100) hw" for y
    by (simp add: AMVolume_setBalance_def clamp_idem)
  have "AMVolume_setVolume v 150 hw = AMVolume_setVolume v 100 hw"
    by (subst vol) (simp add: clamp_def)
  moreover have "AMVolume_setVolume v (- 10) hw = AMVolume_setVolume v 0 hw"
    by (subst vol) (simp add: clamp_def)
  moreover have "AMVolume_setBalance v 150 hw = AMVolume_setBalance v 100 hw"
    by (subst bal) (simp add: clamp_def)
  moreover have "AMVolume_setBalance v (- 150) hw = AMVolume_setBalance v (- 100) hw"
    by (subst bal) (simp add: clamp_def)
  ultimately show ?thesis
    using vol [of x] bal [of b] by blast
qed


section \<open>The factory and the registry\<close>

text \<open>
  Claim C7. For every control element and channel selector, \<open>VolumeController::create\<close>
  selects the Decibel variant exactly when the decibel range query succeeds with a strictly
  positive range; otherwise the Linear variant exactly when the linear range query succeeds
  with a strictly positive range; otherwise the Dummy variant. The controller it returns
  caches the range it was selected for (minimum, maximum and their difference as a \<open>long\<close>).
\<close>

theorem C7_create:
  "create hw (Some e) ch =
     (let linear_or_dummy =
        (case snd_mixer_selem_get_playback_volume_range hw e of
           Some (volMin, volMax) \<Rightarrow>
             if volMin < volMax then VolumeControllerLinear (Some e) ch volMin volMax (long_sub volMax volMin)
             else VolumeControllerDummy (Some e) ch
         | None \<Rightarrow> VolumeControllerDummy (Some e) ch)
      in case snd_mixer_selem_get_playback_dB_range hw e of
           Some (dbMin, dbMax) \<Rightarrow>
             if dbMin < dbMax then VolumeControllerDb (Some e) ch dbMin dbMax (long_sub dbMax dbMin)
             else linear_or_dummy
         | None \<Rightarrow> linear_or_dummy)
   \<and> is_Db (create hw (Some e) ch) =
       (\<exists>dbMin dbMax. snd_mixer_selem_get_playback_dB_range hw e = Some (dbMin, dbMax) \<and> 0 < dbMax - dbMin)
   \<and> is_Linear (create hw (Some e) ch) =
       (\<not> is_Db (create hw (Some e) ch) \<and>
        (\<exists>volMin volMax. snd_mixer_selem_get_playback_volume_range hw e = Some (volMin, volMax) \<and> 0 < volMax - volMin))
   \<and> is_Dummy (create hw (Some e) ch) =
       (\<not> is_Db (create hw (Some e) ch) \<and> \<not> is_Linear (create hw (Some e) ch))"
  by (auto simp: create_def new_VolumeControllerDb_def new_VolumeControllerLinear_def Let_def
      split: option.splits)

lemma scan_elems_eq:
  "scan_elems hw c es chans =
     chans @ map (new_AMVolume hw c)
       (filter (\<lambda>e. selem_is_active hw e \<and> selem_has_playback_volume hw e) es)"
  by (induction es arbitrary: chans) simp_all

lemma scan_cards_channelsList:
  "channelsList (scan_cards hw cs m) =
     channelsList m @ concat (map (\<lambda>(c, dev).
       if open_ok dev \<and> attach_ok dev \<and> register_ok dev \<and> load_ok dev
       then map (new_AMVolume hw c)
         (filter (\<lambda>e. selem_is_active hw e \<and> selem_has_playback_volume hw e) (elems dev))
       else []) (visited cs))"
  by (induction cs arbitrary: m) (simp_all add: scan_elems_eq)

text \<open>
  Claim C9. The constructor of the registry is a total function of what the hardware
  presents, so it never fails. Its channel list is, card after card in the order of the
  enumeration, nothing for a card on which open, attach, register or load fails, and
  otherwise one ChannelVolume for each element that is active and has a playback volume,
  in the order of the elements. The list may be empty.
\<close>

theorem C9_registry:
  "channelsList (new_AMixer hw) =
     concat (map (\<lambda>(c, dev).
       if open_ok dev \<and> attach_ok dev \<and> register_ok dev \<and> load_ok dev
       then map (new_AMVolume hw c)
         (filter (\<lambda>e. selem_is_active hw e \<and> selem_has_playback_volume hw e) (elems dev))
       else []) (visited (cards hw)))"
  by (simp add: new_AMixer_def scan_cards_channelsList)


section \<open>Error bounds of the round trip\<close>

lemma rnd_rel:
  assumes "0 \<le> x"
  shows "x * ulp_lo \<le> rnd x" and "rnd x \<le> x * ulp_hi"
proof -
  have "\<bar>rnd x - x\<bar> \<le> x / 2 ^ 53"
    using rnd_error [of x] assms by simp
  then have "x - x / 2 ^ 53 \<le> rnd x" "rnd x \<le> x + x / 2 ^ 53"
    by linarith+
  then show "x * ulp_lo \<le> rnd x" and "rnd x \<le> x * ulp_hi"
    by (simp_all add: ulp_lo_def ulp_hi_def algebra_simps)
qed

lemma rnd_nonneg: "0 \<le> x \<Longrightarrow> 0 \<le> rnd x"
  using rnd_mono [of 0 x] by (simp add: rnd_0)

lemma ulp_facts: "0 < ulp_lo" "ulp_lo \<le> 1" "1 \<le> ulp_hi" "0 < ulp_hi" "0 \<le> ulp_lo" "0 \<le> ulp_hi"
  by (simp_all add: ulp_lo_def ulp_hi_def)

lemma ulp_num_hi: "100 * (ulp_hi ^ 6 / ulp_lo - 1) + 50 * (ulp_hi ^ 3 / ulp_lo) / 34 < 3 / 2"
  by (simp add: ulp_lo_def ulp_hi_def power_divide)

lemma ulp_num_lo: "100 * (1 - ulp_lo ^ 6 / ulp_hi) + 50 * (ulp_lo ^ 3 / ulp_hi) / 34 < 3 / 2"
  by (simp add: ulp_lo_def ulp_hi_def power_divide)

lemma round_half_away_nonneg: "0 \<le> x \<Longrightarrow> 0 \<le> round_half_away x"
  using round_half_away_mono [of 0 x] round_half_away_of_int [of 0] by simp

lemma round_trip_algebra:
  fixes p r A b :: rat
  assumes "r \<noteq> 0" and "b \<noteq> 0"
  shows "(p * r / 100 * A + 1 / 2) * (100 * (A / b) / r) = p * (A * A / b) + 50 * (A / b) / r"
    and "(p * r / 100 * A - 1 / 2) * (100 * (A / b) / r) = p * (A * A / b) - 50 * (A / b) / r"
  using assms by (simp_all add: field_simps)

text \<open>The percentage read back, before rounding, from the native offset written for p.\<close>

lemma round_trip_real:
  fixes p r :: int
  assumes p: "0 \<le> p" "p \<le> 100" and r: "34 \<le> r"
  defines "n \<equiv> round_half_away (fmul (fdiv (double_of_int p) 100) (double_of_int r))"
  defines "s \<equiv> fmul (fdiv (double_of_int n) (double_of_int r)) 100"
  shows "0 \<le> n" and "of_int p - 3 / 2 < s" and "s < of_int p + 3 / 2"
proof -
  let ?a = ulp_hi and ?b = ulp_lo
  let ?p = "of_int p :: rat" and ?r = "of_int r :: rat" and ?n = "of_int n :: rat"
  note [simp] = ulp_facts
  have a0: "0 \<le> ?a" and b0: "0 \<le> ?b"
    by (simp_all add: ulp_hi_def ulp_lo_def)
  have rp: "0 < ?r" and pp: "0 \<le> ?p" and p100: "?p \<le> 100" and r34: "34 \<le> ?r"
    using p r by simp_all
  \<comment> \<open>the fraction p / 100.0\<close>
  define f where "f = fdiv (double_of_int p) 100"
  have P: "double_of_int p = ?p"
    using p by (simp add: double_of_int_def rnd_of_int)
  have f: "?p / 100 * ?b \<le> f" "f \<le> ?p / 100 * ?a"
    using rnd_rel [of "?p / 100"] pp by (simp_all add: f_def fdiv_def P)
  have f0: "0 \<le> f"
    using pp by (simp add: f_def fdiv_def P rnd_nonneg)
  \<comment> \<open>the range as a double\<close>
  define R where "R = double_of_int r"
  have R: "?r * ?b \<le> R" "R \<le> ?r * ?a"
    using rnd_rel [of ?r] rp by (simp_all add: R_def double_of_int_def)
  have R0: "0 < R"
    using rnd_pos_pos [of ?r] rp by (simp add: R_def double_of_int_def)
  \<comment> \<open>the product and its rounding\<close>
  define t where "t = fmul f R"
  have t0: "0 \<le> t"
    using f0 R0 by (simp add: t_def fmul_def rnd_nonneg)
  have fR_hi: "f * R \<le> ?p * ?r / 100 * ?a ^ 2"
  proof -
    have "f * R \<le> (?p / 100 * ?a) * (?r * ?a)"
      using f(2) R(2) f0 R0 by (intro mult_mono) (simp_all add: pp)
    then show ?thesis
      by (simp add: power2_eq_square algebra_simps)
  qed
  have fR_lo: "?p * ?r / 100 * ?b ^ 2 \<le> f * R"
  proof -
    have "(?p / 100 * ?b) * (?r * ?b) \<le> f * R"
      using f(1) R(1) f0 rp b0 by (intro mult_mono) simp_all
    then show ?thesis
      by (simp add: power2_eq_square algebra_simps)
  qed
  have t_hi: "t \<le> ?p * ?r / 100 * ?a ^ 3"
  proof -
    have "t \<le> f * R * ?a"
      using rnd_rel(2) [of "f * R"] f0 R0 by (simp add: t_def fmul_def)
    also have "\<dots> \<le> (?p * ?r / 100 * ?a ^ 2) * ?a"
      using fR_hi by (intro mult_right_mono) simp_all
    finally show ?thesis
      by (simp add: power3_eq_cube power2_eq_square algebra_simps)
  qed
  have t_lo: "?p * ?r / 100 * ?b ^ 3 \<le> t"
  proof -
    have "(?p * ?r / 100 * ?b ^ 2) * ?b \<le> f * R * ?b"
      using fR_lo by (intro mult_right_mono) simp_all
    also have "\<dots> \<le> t"
      using rnd_rel(1) [of "f * R"] f0 R0 by (simp add: t_def fmul_def)
    finally show ?thesis
      by (simp add: power3_eq_cube power2_eq_square algebra_simps)
  qed
  have n_def': "n = round_half_away t"
    by (simp add: n_def t_def f_def R_def)
  show n0: "0 \<le> n"
    using t0 by (simp add: n_def' round_half_away_nonneg)
  have n_err: "t - 1 / 2 \<le> ?n" "?n \<le> t + 1 / 2"
    using round_half_away_error [of t] unfolding n_def' by linarith+
  have nn: "0 \<le> ?n"
    using n0 by simp
  \<comment> \<open>reading back\<close>
  define N where "N = double_of_int n"
  have N: "?n * ?b \<le> N" "N \<le> ?n * ?a"
    using rnd_rel [of ?n] nn by (simp_all add: N_def double_of_int_def)
  have N0: "0 \<le> N"
    using nn by (simp add: N_def double_of_int_def rnd_nonneg)
  define q where "q = fdiv N R"
  have q0: "0 \<le> q"
    using N0 R0 by (simp add: q_def fdiv_def rnd_nonneg)
  have NR_hi: "N / R \<le> ?n * ?a / (?r * ?b)"
  proof (rule frac_le)
    show "0 \<le> ?n * ?a" using nn by simp
    show "N \<le> ?n * ?a" by (rule N(2))
    show "0 < ?r * ?b" using rp by simp
    show "?r * ?b \<le> R" by (rule R(1))
  qed
  have NR_lo: "?n * ?b / (?r * ?a) \<le> N / R"
  proof (rule frac_le)
    show "0 \<le> N" by (rule N0)
    show "?n * ?b \<le> N" by (rule N(1))
    show "0 < R" by (rule R0)
    show "R \<le> ?r * ?a" by (rule R(2))
  qed
  have q_hi: "q \<le> ?n * ?a / (?r * ?b) * ?a"
  proof -
    have "q \<le> N / R * ?a"
      using rnd_rel(2) [of "N / R"] N0 R0 by (simp add: q_def fdiv_def)
    also have "\<dots> \<le> ?n * ?a / (?r * ?b) * ?a"
      using NR_hi by (intro mult_right_mono) simp_all
    finally show ?thesis .
  qed
  have q_lo: "?n * ?b / (?r * ?a) * ?b \<le> q"
  proof -
    have "?n * ?b / (?r * ?a) * ?b \<le> N / R * ?b"
      using NR_lo by (intro mult_right_mono) simp_all
    also have "\<dots> \<le> q"
      using rnd_rel(1) [of "N / R"] N0 R0 by (simp add: q_def fdiv_def)
    finally show ?thesis .
  qed
  have s_def': "s = fmul q 100"
    by (simp add: s_def q_def N_def R_def)
  have s_hi: "s \<le> ?n * (100 * (?a ^ 3 / ?b) / ?r)"
  proof -
    have "s \<le> q * 100 * ?a"
      using rnd_rel(2) [of "q * 100"] q0 by (simp add: s_def' fmul_def)
    also have "\<dots> \<le> (?n * ?a / (?r * ?b) * ?a) * 100 * ?a"
      using q_hi by (intro mult_right_mono) simp_all
    also have "\<dots> = ?n * (100 * (?a ^ 3 / ?b) / ?r)"
      by (simp add: power3_eq_cube mult_ac)
    finally show ?thesis .
  qed
  have s_lo: "?n * (100 * (?b ^ 3 / ?a) / ?r) \<le> s"
  proof -
    have "?n * (100 * (?b ^ 3 / ?a) / ?r) = (?n * ?b / (?r * ?a) * ?b) * 100 * ?b"
      by (simp add: power3_eq_cube mult_ac)
    also have "\<dots> \<le> q * 100 * ?b"
      using q_lo by (intro mult_right_mono) simp_all
    also have "\<dots> \<le> s"
      using rnd_rel(1) [of "q * 100"] q0 by (simp add: s_def' fmul_def)
    finally show ?thesis .
  qed
  \<comment> \<open>the upper bound\<close>
  have c_hi: "0 \<le> 100 * (?a ^ 3 / ?b) / ?r"
    using rp by simp
  have "s \<le> (?p * ?r / 100 * ?a ^ 3 + 1 / 2) * (100 * (?a ^ 3 / ?b) / ?r)"
  proof -
    have "?n \<le> ?p * ?r / 100 * ?a ^ 3 + 1 / 2"
      using n_err(2) t_hi by simp
    then have "?n * (100 * (?a ^ 3 / ?b) / ?r) \<le>
        (?p * ?r / 100 * ?a ^ 3 + 1 / 2) * (100 * (?a ^ 3 / ?b) / ?r)"
      using c_hi by (rule mult_right_mono)
    then show ?thesis
      using s_hi by simp
  qed
  also have "\<dots> = ?p * (?a ^ 6 / ?b) + 50 * (?a ^ 3 / ?b) / ?r"
    using round_trip_algebra(1) [of ?r ?b ?p "?a ^ 3"] rp ulp_facts(1)
    by (simp flip: power_add)
  also have "\<dots> \<le> ?p + 100 * (?a ^ 6 / ?b - 1) + 50 * (?a ^ 3 / ?b) / 34"
  proof -
    have k: "1 \<le> ?a ^ 6 / ?b"
      by (simp add: ulp_hi_def ulp_lo_def power_divide)
    have "?p * (?a ^ 6 / ?b - 1) \<le> 100 * (?a ^ 6 / ?b - 1)"
      using p100 k by (intro mult_right_mono) simp_all
    then have 1: "?p * (?a ^ 6 / ?b) \<le> ?p + 100 * (?a ^ 6 / ?b - 1)"
      by (simp add: algebra_simps)
    have "50 * (?a ^ 3 / ?b) / ?r \<le> 50 * (?a ^ 3 / ?b) / 34"
      using r34 by (intro divide_left_mono) simp_all
    with 1 show ?thesis by simp
  qed
  also have "\<dots> < ?p + 3 / 2"
    using ulp_num_hi by simp
  finally show "s < ?p + 3 / 2" .
  \<comment> \<open>the lower bound\<close>
  have c_lo: "0 \<le> 100 * (?b ^ 3 / ?a) / ?r"
    using rp by simp
  have "?p - 3 / 2 < ?p - 100 * (1 - ?b ^ 6 / ?a) - 50 * (?b ^ 3 / ?a) / 34"
    using ulp_num_lo by simp
  also have "\<dots> \<le> ?p * (?b ^ 6 / ?a) - 50 * (?b ^ 3 / ?a) / ?r"
  proof -
    have k: "?b ^ 6 / ?a \<le> 1"
      by (simp add: ulp_hi_def ulp_lo_def power_divide)
    have "?p * (1 - ?b ^ 6 / ?a) \<le> 100 * (1 - ?b ^ 6 / ?a)"
      using p100 k by (intro mult_right_mono) simp_all
    then have 1: "?p - 100 * (1 - ?b ^ 6 / ?a) \<le> ?p * (?b ^ 6 / ?a)"
      by (simp add: algebra_simps)
    have "50 * (?b ^ 3 / ?a) / ?r \<le> 50 * (?b ^ 3 / ?a) / 34"
      using r34 by (intro divide_left_mono) simp_all
    with 1 show ?thesis by simp
  qed
  also have "\<dots> = (?p * ?r / 100 * ?b ^ 3 - 1 / 2) * (100 * (?b ^ 3 / ?a) / ?r)"
    using round_trip_algebra(2) [of ?r ?a ?p "?b ^ 3"] rp ulp_facts(4)
    by (simp flip: power_add)
  also have "\<dots> \<le> s"
  proof -
    have "?p * ?r / 100 * ?b ^ 3 - 1 / 2 \<le> ?n"
      using n_err(1) t_lo by simp
    then have "(?p * ?r / 100 * ?b ^ 3 - 1 / 2) * (100 * (?b ^ 3 / ?a) / ?r) \<le>
        ?n * (100 * (?b ^ 3 / ?a) / ?r)"
      using c_lo by (rule mult_right_mono)
    then show ?thesis
      using s_lo by simp
  qed
  finally show "?p - 3 / 2 < s" .
qed


section \<open>VolumeController::setVolume\<close>

lemma long_of_int_id: "LONG_MIN \<le> x \<Longrightarrow> x \<le> LONG_MAX \<Longrightarrow> long_of_int x = x"
  by (simp add: long_of_int_def LONG_MIN_def LONG_MAX_def)

lemma long_sub_id: "LONG_MIN \<le> a - b \<Longrightarrow> a - b \<le> LONG_MAX \<Longrightarrow> long_sub a b = a - b"
  by (simp add: long_sub_def long_of_int_id)

lemma long_add_id: "LONG_MIN \<le> a + b \<Longrightarrow> a + b \<le> LONG_MAX \<Longrightarrow> long_add a b = a + b"
  by (simp add: long_add_def long_of_int_id)

lemma lround_eq:
  "LONG_MIN \<le> round_half_away x \<Longrightarrow> round_half_away x \<le> LONG_MAX \<Longrightarrow> lround x = round_half_away x"
  by (simp add: lround_def)

lemma long_sub_add_cancel:
  assumes "LONG_MIN \<le> n" and "n \<le> LONG_MAX"
  shows "long_sub (long_add m n) m = n"
proof -
  have "long_sub (long_add m n) m = (n + 2 ^ 63) mod 2 ^ 64 - 2 ^ 63"
    by (simp add: long_sub_def long_add_def long_of_int_def mod_simps)
  then show ?thesis
    using long_of_int_id [OF assms] by (simp add: long_of_int_def)
qed

lemma double_of_int_small: "\<bar>n\<bar> \<le> 2 ^ 53 \<Longrightarrow> double_of_int n = of_int n"
  by (simp add: double_of_int_def rnd_of_int)

lemma rnd_1: "rnd 1 = 1"
  using rnd_of_int [of 1] by simp

lemma rnd_100: "rnd 100 = 100"
  using rnd_of_int [of 100] by simp

lemma round_half_away_0: "round_half_away 0 = 0"
  using round_half_away_of_int [of 0] by simp

lemma lround_0: "lround 0 = 0"
  by (simp add: lround_def round_half_away_0 LONG_MIN_def LONG_MAX_def)

lemma double_of_int_mono: "m \<le> n \<Longrightarrow> double_of_int m \<le> double_of_int n"
  by (simp add: double_of_int_def rnd_mono)

text \<open>Clamping the fraction to [0,1] is clamping the percentage to [0,100].\<close>

lemma fraction_clamp:
  "clamp (fdiv (double_of_int v) 100) 0 1 = fdiv (double_of_int (clamp v 0 100)) 100"
proof -
  consider "v < 0" | "0 \<le> v" "v \<le> 100" | "100 < v"
    by linarith
  then show ?thesis
  proof cases
    case 1
    then have "double_of_int v \<le> double_of_int (- 1)"
      by (intro double_of_int_mono) simp
    then have "double_of_int v / 100 < 0"
      by (simp add: double_of_int_small)
    then have "0 < rnd (- (double_of_int v / 100))"
      by (intro rnd_pos_pos) simp
    then have "fdiv (double_of_int v) 100 < 0"
      by (simp add: fdiv_def rnd_minus)
    then show ?thesis
      using 1 by (simp add: clamp_def fdiv_def double_of_int_small rnd_0)
  next
    case 2
    have "rnd 0 \<le> rnd (of_int v / 100)" "rnd (of_int v / 100) \<le> rnd 1"
      using 2 by (intro rnd_mono; simp)+
    then show ?thesis
      using 2 by (simp add: clamp_def fdiv_def double_of_int_small rnd_0 rnd_1)
  next
    case 3
    then have "double_of_int 100 \<le> double_of_int v"
      by (intro double_of_int_mono) simp
    then have "1 \<le> double_of_int v / 100"
      by (simp add: double_of_int_small)
    then have "rnd 1 \<le> rnd (double_of_int v / 100)"
      by (rule rnd_mono)
    then have "1 \<le> fdiv (double_of_int v) 100"
      by (simp add: fdiv_def rnd_1)
    then show ?thesis
      using 3 by (auto simp: clamp_def fdiv_def double_of_int_small rnd_1)
  qed
qed

lemma fraction_range:
  "0 \<le> fdiv (double_of_int (clamp v 0 100)) 100" "fdiv (double_of_int (clamp v 0 100)) 100 \<le> 1"
  using clamp_bounds [of 0 1 "fdiv (double_of_int v) 100"] by (simp_all add: fraction_clamp)

text \<open>
  For a range that is a double (at most \<open>2^53\<close>), the offset written lies between 0 and the
  range, so that it is a \<open>long\<close> and the level written lies between \<open>min\<close> and \<open>max\<close>.
\<close>

lemma written_offset_range:
  assumes "0 < r" and "r \<le> 2 ^ 53"
  shows "0 \<le> round_half_away (fmul (fdiv (double_of_int (clamp v 0 100)) 100) (double_of_int r))"
    and "round_half_away (fmul (fdiv (double_of_int (clamp v 0 100)) 100) (double_of_int r)) \<le> r"
proof -
  let ?f = "fdiv (double_of_int (clamp v 0 100)) 100"
  have R: "double_of_int r = of_int r"
    using assms by (intro double_of_int_small) simp
  have "0 \<le> ?f * of_int r" "?f * of_int r \<le> 1 * of_int r"
    using fraction_range [of v] assms(1) by (simp_all add: mult_right_mono)
  then have "rnd 0 \<le> fmul ?f (of_int r)" "fmul ?f (of_int r) \<le> rnd (of_int r)"
    unfolding fmul_def by (intro rnd_mono; simp)+
  moreover have "rnd (of_int r) = of_int r"
    using assms by (intro rnd_of_int) simp
  ultimately have "round_half_away 0 \<le> round_half_away (fmul ?f (of_int r))"
    "round_half_away (fmul ?f (of_int r)) \<le> round_half_away (of_int r)"
    by (simp_all add: rnd_0 round_half_away_mono)
  then show "0 \<le> round_half_away (fmul ?f (double_of_int r))"
    and "round_half_away (fmul ?f (double_of_int r)) \<le> r"
    by (simp_all add: R round_half_away_0 round_half_away_of_int)
qed

lemma written_level:
  assumes "0 < r" and "r \<le> 2 ^ 53" and "LONG_MIN \<le> mn" and "mn + r \<le> LONG_MAX"
  shows "long_add mn (lround (fmul (clamp (fdiv (double_of_int v) 100) 0 1) (double_of_int r))) =
    mn + round_half_away (fmul (fdiv (double_of_int (clamp v 0 100)) 100) (double_of_int r))"
proof -
  let ?n = "round_half_away (fmul (fdiv (double_of_int (clamp v 0 100)) 100) (double_of_int r))"
  have n: "0 \<le> ?n" "?n \<le> r"
    using written_offset_range [OF assms(1,2)] by simp_all
  have "LONG_MIN \<le> ?n" "?n \<le> LONG_MAX"
    using n assms by (simp_all add: LONG_MIN_def LONG_MAX_def)
  then have "lround (fmul (fdiv (double_of_int (clamp v 0 100)) 100) (double_of_int r)) = ?n"
    by (rule lround_eq)
  moreover have "long_of_int (mn + ?n) = mn + ?n"
    using n assms by (intro long_of_int_id) simp_all
  ultimately show ?thesis
    by (simp add: fraction_clamp long_add_def)
qed

lemma round_half_away_ties:
  "round_half_away (of_nat k + 1 / 2) = int k + 1" "round_half_away (- of_nat k - 1 / 2) = - int k - 1"
proof -
  have f: "\<lfloor>of_nat k + 1 :: rat\<rfloor> = int k + 1"
    by linarith
  then show "round_half_away (of_nat k + 1 / 2) = int k + 1"
    by (simp add: round_half_away_def)
  have "- rat_of_nat k - 1 / 2 < 0"
    by (simp add: algebra_simps add_pos_nonneg)
  then show "round_half_away (- of_nat k - 1 / 2) = - int k - 1"
    using f by (simp add: round_half_away_def)
qed

text \<open>
  Claim C2, amended. For every input volume, \<open>setVolume\<close> of a scale controller acts on the
  input clamped to [0,100]. It is a no-op when the cached range is not strictly positive (as
  it is for a controller built on a null element, and for the Dummy variant). Otherwise, for
  a cached range of at most \<open>2^53\<close> between a minimum and a maximum that are \<open>long\<close> values, it
  writes \<open>min + round(fraction * range)\<close> to the hardware, where \<open>fraction\<close> is the clamped
  input divided by 100.0 as a double, the product is the product of doubles, and the
  rounding is to the nearest integer, a product that is halfway between two integers going
  away from zero; the level written lies between the minimum and the maximum. A Decibel
  controller with \<open>dbMin = -5100\<close>, \<open>dbMax = 0\<close> writes \<open>-2550\<close> on \<open>setVolume(50)\<close>.
\<close>

theorem C2_setVolume:
  assumes "0 < r" and "r \<le> 2 ^ 53" and "LONG_MIN \<le> minimum" and "minimum + r \<le> LONG_MAX"
  shows
    "VolumeController_setVolume (VolumeControllerDb (Some e) ch minimum maximum r) volume hw =
       snd_mixer_selem_set_playback_dB e ch
         (minimum + round_half_away
            (fmul (fdiv (double_of_int (clamp volume 0 100)) 100) (double_of_int r))) hw
     \<and> VolumeController_setVolume (VolumeControllerLinear (Some e) ch minimum maximum r) volume hw =
       snd_mixer_selem_set_playback_volume e ch
         (minimum + round_half_away
            (fmul (fdiv (double_of_int (clamp volume 0 100)) 100) (double_of_int r))) hw
     \<and> 0 \<le> round_half_away (fmul (fdiv (double_of_int (clamp volume 0 100)) 100) (double_of_int r))
     \<and> round_half_away (fmul (fdiv (double_of_int (clamp volume 0 100)) 100) (double_of_int r)) \<le> r
     \<and> (\<forall>el r0. r0 \<le> 0 \<longrightarrow>
          VolumeController_setVolume (VolumeControllerDb el ch minimum maximum r0) volume hw = hw
          \<and> VolumeController_setVolume (VolumeControllerLinear el ch minimum maximum r0) volume hw = hw)
     \<and> VolumeController_setVolume (new_VolumeControllerDb hw0 None ch) volume hw = hw
     \<and> VolumeController_setVolume (new_VolumeControllerLinear hw0 None ch) volume hw = hw
     \<and> VolumeController_setVolume (VolumeControllerDummy elem ch) volume hw = hw
     \<and> round_half_away (of_nat k + 1 / 2) = int k + 1
     \<and> round_half_away (- of_nat k - 1 / 2) = - int k - 1
     \<and> snd_mixer_selem_get_playback_dB e ch
           (VolumeController_setVolume (VolumeControllerDb (Some e) ch (- 5100) 0 5100) 50 hw)
         = (Some (- 2550), VolumeController_setVolume (VolumeControllerDb (Some e) ch (- 5100) 0 5100) 50 hw)"
proof -
  have noop: "VolumeController_setVolume (VolumeControllerDb el ch minimum maximum r0) volume hw = hw
      \<and> VolumeController_setVolume (VolumeControllerLinear el ch minimum maximum r0) volume hw = hw"
    if "r0 \<le> 0" for el r0
    using that by (cases el) simp_all
  have "fmul (fdiv (double_of_int (clamp 50 0 100)) 100) (double_of_int 5100) = 2550"
    by (simp add: double_of_int_small fdiv_def fmul_def clamp_def) code_simp
  then have "round_half_away (fmul (fdiv (double_of_int (clamp 50 0 100)) 100) (double_of_int 5100)) = 2550"
    using round_half_away_of_int [of 2550] by simp
  then have ex: "long_add (- 5100) (lround (fmul (clamp (fdiv (double_of_int 50) 100) 0 1) (double_of_int 5100)))
      = - 2550"
    using written_level [of 5100 "- 5100" 50] by (simp add: LONG_MIN_def LONG_MAX_def)
  show ?thesis
    using assms(1) noop ex written_offset_range [OF assms(1,2), of volume]
    by (simp add: written_level [OF assms] Let_def new_VolumeControllerDb_def
      new_VolumeControllerLinear_def round_half_away_ties
      snd_mixer_selem_set_playback_dB_def snd_mixer_selem_get_playback_dB_def)
qed


section \<open>The round trip through the hardware\<close>

text \<open>
  The fraction and the products are doubles. Where the exact product is halfway between two
  integers, the double product need not be: 58 percent of a range of 25 is 14.5 exactly and
  \<open>14.499999999999998\<close> as a double, so that level 14 is written; and a volume of 25 at a
  balance of 42 gives 14 for the quieter side.
\<close>

lemma double_product_below_a_tie:
  "lround (fmul (fdiv (double_of_int 58) 100) (double_of_int 25)) = 14"
  "round_half_away (58 / 100 * 25) = 15"
  "lround (fmul (double_of_int 25) (fdiv (fsub 100 (double_of_int \<bar>- 42\<bar>)) 100)) = 14"
  "round_half_away (of_int 25 * of_int (100 - \<bar>- 42\<bar>) / 100) = 15"
  by code_simp+

lemma int_of_long_small: "- (2 ^ 31) \<le> x \<Longrightarrow> x < 2 ^ 31 \<Longrightarrow> int_of_long x = x"
  by (simp add: int_of_long_def)

lemma round_trip_percentage:
  fixes p r :: int
  assumes "0 \<le> p" "p \<le> 100" "34 \<le> r"
  defines "n \<equiv> round_half_away (fmul (fdiv (double_of_int p) 100) (double_of_int r))"
  shows "\<bar>clamp (int_of_long (lround (fmul (fdiv (double_of_int n) (double_of_int r)) 100))) 0 100 - p\<bar> \<le> 1"
proof -
  define s where "s = fmul (fdiv (double_of_int n) (double_of_int r)) 100"
  have s: "of_int p - 3 / 2 < s" "s < of_int p + 3 / 2"
    using round_trip_real(2,3) [OF assms(1-3)] by (simp_all add: s_def n_def)
  have "of_int p - 2 < (of_int (round_half_away s) :: rat)"
    "(of_int (round_half_away s) :: rat) < of_int p + 2"
    using round_half_away_error [of s] s by linarith+
  then have "rat_of_int (p - 2) < of_int (round_half_away s)"
    "rat_of_int (round_half_away s) < of_int (p + 2)"
    by simp_all
  then have L: "p - 2 < round_half_away s" "round_half_away s < p + 2"
    by (simp_all only: of_int_less_iff)
  then have "lround s = round_half_away s"
    using assms(1,2) by (intro lround_eq) (simp_all add: LONG_MIN_def LONG_MAX_def)
  moreover have "int_of_long (round_half_away s) = round_half_away s"
    using L assms(1,2) by (intro int_of_long_small) simp_all
  ultimately have "\<bar>clamp (int_of_long (lround s)) 0 100 - p\<bar> \<le> 1"
    using L assms(1,2) by (auto simp: clamp_def)
  then show ?thesis
    by (simp only: s_def)
qed

text \<open>
  Claim C1, amended. For every percentage \<open>p\<close> in [0,100] and every Decibel or Linear
  controller whose cached range is at least 34 and at most \<open>2^53\<close>, between a minimum and a
  maximum that are \<open>long\<close> values, \<open>setVolume(p)\<close> followed by \<open>getVolume()\<close> on hardware that
  returns the value just written yields a result within 1 of \<open>p\<close>. (The written level is
  off by up to half a step, that is by up to \<open>50 / range\<close> percent, and reading rounds once
  more. Up to \<open>2^53\<close> the range is a double and the level written stays between the minimum
  and the maximum, so that no \<open>long\<close> overflows.)
\<close>

theorem C1_round_trip:
  assumes "0 \<le> p" and "p \<le> 100"
    and "34 \<le> r" and "r \<le> 2 ^ 53"
    and "LONG_MIN \<le> minimum" and "minimum + r \<le> LONG_MAX"
  shows
    "\<bar>fst (VolumeController_getVolume (VolumeControllerDb (Some e) ch minimum maximum r)
        (VolumeController_setVolume (VolumeControllerDb (Some e) ch minimum maximum r) p hw)) - p\<bar> \<le> 1
     \<and> \<bar>fst (VolumeController_getVolume (VolumeControllerLinear (Some e) ch minimum maximum r)
        (VolumeController_setVolume (VolumeControllerLinear (Some e) ch minimum maximum r) p hw)) - p\<bar> \<le> 1"
proof -
  define n where "n = round_half_away (fmul (fdiv (double_of_int p) 100) (double_of_int r))"
  have r0: "0 < r"
    using assms(3) by simp
  have c: "clamp p 0 100 = p"
    using assms(1,2) by (simp add: clamp_def)
  have n: "0 \<le> n" "n \<le> r"
    using written_offset_range [OF r0 assms(4), of p] by (simp_all add: c n_def)
  have w: "long_add minimum (lround (fmul (clamp (fdiv (double_of_int p) 100) 0 1) (double_of_int r)))
      = minimum + n"
    using written_level [OF r0 assms(4-6), of p] by (simp add: c n_def)
  have "long_sub (long_add minimum n) minimum = n"
    using n assms(4) by (intro long_sub_add_cancel) (simp_all add: LONG_MIN_def LONG_MAX_def)
  moreover have "long_add minimum n = minimum + n"
    using n assms(5,6) by (simp add: long_add_def long_of_int_id)
  ultimately have b: "long_sub (minimum + n) minimum = n"
    by simp
  have "\<bar>clamp (int_of_long (lround (fmul (fdiv (double_of_int n) (double_of_int r)) 100))) 0 100 - p\<bar> \<le> 1"
    using round_trip_percentage [OF assms(1-3)] by (simp only: n_def)
  then show ?thesis
    using r0
    by (simp add: Let_def w b
      snd_mixer_selem_set_playback_dB_def snd_mixer_selem_get_playback_dB_def
      snd_mixer_selem_set_playback_volume_def snd_mixer_selem_get_playback_volume_def)
qed

text \<open>The left controller of the speaker, with the range [-5100, 0], and \<open>p = 50\<close>.\<close>

theorem C1_round_trip_witness:
  "leftVolumeController speaker = VolumeControllerDb (Some 7) 0 (- 5100) 0 5100
   \<and> (0 :: int) \<le> 50 \<and> (50 :: int) \<le> 100 \<and> (34 :: int) \<le> 5100 \<and> (5100 :: int) \<le> 2 ^ 53
   \<and> LONG_MIN \<le> - 5100 \<and> - 5100 + 5100 \<le> LONG_MAX
   \<and> \<bar>fst (VolumeController_getVolume (leftVolumeController speaker)
        (VolumeController_setVolume (leftVolumeController speaker) 50 speaker_hw)) - 50\<bar> \<le> 1"
proof -
  have c: "leftVolumeController speaker = VolumeControllerDb (Some 7) 0 (- 5100) 0 5100"
    by code_simp
  have b: "LONG_MIN \<le> - 5100" "- 5100 + 5100 \<le> LONG_MAX"
    by (simp_all add: LONG_MIN_def LONG_MAX_def)
  show ?thesis
    using C1_round_trip [of 50 5100 "- 5100" 7 0 0 speaker_hw] b by (simp add: c)
qed

text \<open>
  Claim C1 as stated asks only for a strictly positive range. On the element with the
  linear range of 0 to 33, 50 percent is written as level 17 (16.5 rounded away from zero)
  and read back as 52.
\<close>

theorem C1_small_range_counterexample:
  "create beep_hw (Some 5) SND_MIXER_SCHN_MONO = VolumeControllerLinear (Some 5) 0 0 33 33
   \<and> (0 :: int) \<le> 50 \<and> (50 :: int) \<le> 100 \<and> (0 :: int) < 33
   \<and> fst (VolumeController_getVolume (create beep_hw (Some 5) SND_MIXER_SCHN_MONO)
        (VolumeController_setVolume (create beep_hw (Some 5) SND_MIXER_SCHN_MONO) 50 beep_hw)) = 52"
  by code_simp


section \<open>What an operation writes\<close>

lemma writes_only_refl: "writes_only S hw hw"
  by (simp add: writes_only_def)

lemma writes_only_mono: "writes_only S hw hw' \<Longrightarrow> S \<subseteq> T \<Longrightarrow> writes_only T hw hw'"
  unfolding writes_only_def by blast

lemma writes_only_trans:
  assumes "writes_only S hw hw1" and "writes_only T hw1 hw2"
  shows "writes_only (S \<union> T) hw hw2"
proof -
  have "hw2\<lparr>playback_dB := playback_dB hw, playback_volume := playback_volume hw\<rparr> =
      (hw2\<lparr>playback_dB := playback_dB hw1, playback_volume := playback_volume hw1\<rparr>)
        \<lparr>playback_dB := playback_dB hw, playback_volume := playback_volume hw\<rparr>"
    by simp
  also have "\<dots> = hw"
    using assms by (simp only: writes_only_def)
  finally show ?thesis
    using assms by (simp add: writes_only_def)
qed

lemma VolumeController_setVolume_writes_only:
  "writes_only (controller_cells c) hw (VolumeController_setVolume c x hw)"
proof (cases c)
  case (VolumeControllerDb el ch mn mx r)
  then show ?thesis
    by (cases el)
      (auto simp: writes_only_def Let_def snd_mixer_selem_set_playback_dB_def)
next
  case (VolumeControllerLinear el ch mn mx r)
  then show ?thesis
    by (cases el)
      (auto simp: writes_only_def Let_def snd_mixer_selem_set_playback_volume_def)
next
  case (VolumeControllerDummy el ch)
  then show ?thesis
    by (simp add: writes_only_def)
qed

lemma writes_only_getVolume:
  assumes "writes_only S hw hw'" and "controller_cells c \<inter> S = {}"
  shows "fst (VolumeController_getVolume c hw') = fst (VolumeController_getVolume c hw)"
proof (cases c)
  case (VolumeControllerDb el ch mn mx r)
  show ?thesis
  proof (cases el)
    case None
    then show ?thesis using VolumeControllerDb by simp
  next
    case (Some e)
    then have "DbCell e ch \<notin> S"
      using assms(2) VolumeControllerDb by simp
    then have "playback_dB hw' (e, ch) = playback_dB hw (e, ch)"
      using assms(1) by (simp add: writes_only_def)
    then show ?thesis
      using VolumeControllerDb Some
      by (simp add: snd_mixer_selem_get_playback_dB_def Let_def split: option.splits)
  qed
next
  case (VolumeControllerLinear el ch mn mx r)
  show ?thesis
  proof (cases el)
    case None
    then show ?thesis using VolumeControllerLinear by simp
  next
    case (Some e)
    then have "VolumeCell e ch \<notin> S"
      using assms(2) VolumeControllerLinear by simp
    then have "playback_volume hw' (e, ch) = playback_volume hw (e, ch)"
      using assms(1) by (simp add: writes_only_def)
    then show ?thesis
      using VolumeControllerLinear Some
      by (simp add: snd_mixer_selem_get_playback_volume_def Let_def split: option.splits)
  qed
next
  case (VolumeControllerDummy el ch)
  then show ?thesis by simp
qed

lemma AMVolume_setVolume_stereo_writes_only:
  assumes "hasLeft v \<and> hasRight v"
  shows "writes_only (controller_cells (leftVolumeController v) \<union> controller_cells (rightVolumeController v))
    hw (AMVolume_setVolume v x hw)"
  using assms
  by (auto simp: AMVolume_setVolume_def AMVolume_getBalance_eq Let_def
      intro!: writes_only_trans VolumeController_setVolume_writes_only)

lemma AMVolume_setBalance_writes_only:
  "writes_only (controller_cells (leftVolumeController v) \<union> controller_cells (rightVolumeController v))
    hw (AMVolume_setBalance v b hw)"
  by (auto simp: AMVolume_setBalance_def AMVolume_getVolume_eq Let_def writes_only_refl
      intro!: writes_only_trans VolumeController_setVolume_writes_only)

lemma create_cells:
  "controller_cells (create hw (Some e) ch) \<subseteq> {DbCell e ch, VolumeCell e ch}"
  by (auto simp: create_def new_VolumeControllerDb_def new_VolumeControllerLinear_def
      split: option.splits)

text \<open>
  Claim C10, amended. Each ChannelVolume operation changes at most the hardware cells that
  its designated controllers address: on a mono channel \<open>setVolume\<close> changes at most the cell of
  the mono controller; on a stereo channel \<open>setVolume\<close> changes at most the cells of the left
  and right controllers, and so does \<open>setBalance\<close> on any channel; a controller that addresses
  none of the cells an operation may change reads the same volume after it;
  \<open>getVolume\<close>, \<open>getBalance\<close> and \<open>getName\<close> leave the hardware state as it is.
\<close>

theorem C10_frame:
  "(\<not> (hasLeft v \<and> hasRight v) \<longrightarrow>
      writes_only (controller_cells (monoVolumeController v)) hw (AMVolume_setVolume v x hw))
   \<and> (hasLeft v \<and> hasRight v \<longrightarrow>
      writes_only (controller_cells (leftVolumeController v) \<union> controller_cells (rightVolumeController v))
        hw (AMVolume_setVolume v x hw))
   \<and> writes_only (controller_cells (leftVolumeController v) \<union> controller_cells (rightVolumeController v))
        hw (AMVolume_setBalance v b hw)
   \<and> (\<forall>S hw' c. writes_only S hw hw' \<and> controller_cells c \<inter> S = {} \<longrightarrow>
        fst (VolumeController_getVolume c hw') = fst (VolumeController_getVolume c hw))
   \<and> snd (AMVolume_getVolume v hw) = hw
   \<and> snd (AMVolume_getBalance v hw) = hw
   \<and> snd (AMVolume_getName v hw) = hw"
proof -
  have "writes_only (controller_cells (monoVolumeController v)) hw (AMVolume_setVolume v x hw)"
    if "\<not> (hasLeft v \<and> hasRight v)"
    using that by (auto simp: AMVolume_setVolume_def Let_def VolumeController_setVolume_writes_only)
  then show ?thesis
    using AMVolume_setVolume_stereo_writes_only [of v hw x] AMVolume_setBalance_writes_only [of v hw b]
      writes_only_getVolume
    by (auto simp: AMVolume_getVolume_eq AMVolume_getBalance_eq AMVolume_getName_def)
qed


section \<open>AMVolume::setBalance\<close>

lemma fsub_100_small:
  assumes "0 \<le> k" "k \<le> 100"
  shows "fsub 100 (double_of_int k) = of_int (100 - k)"
proof -
  have "rnd (of_int (100 - k)) = of_int (100 - k)"
    using assms by (intro rnd_of_int) simp
  then show ?thesis
    using assms by (simp add: fsub_def double_of_int_small)
qed

lemma balanceNorm_range:
  assumes "0 \<le> k" "k \<le> 100"
  shows "0 \<le> fdiv (of_int (100 - k)) 100" and "fdiv (of_int (100 - k)) 100 \<le> 1"
proof -
  have "rnd 0 \<le> rnd (of_int (100 - k) / 100)" "rnd (of_int (100 - k) / 100) \<le> rnd 1"
    using assms by (intro rnd_mono; simp)+
  then show "0 \<le> fdiv (of_int (100 - k)) 100" and "fdiv (of_int (100 - k)) 100 \<le> 1"
    by (simp_all add: fdiv_def rnd_0 rnd_1)
qed

lemma scaled_volume_range:
  assumes "0 \<le> volume" "volume \<le> 100" "0 \<le> bn" "bn \<le> 1"
  shows "0 \<le> lround (fmul (of_int volume) bn)" and "lround (fmul (of_int volume) bn) \<le> 100"
proof -
  have "0 \<le> rat_of_int volume * bn"
    using assms by simp
  moreover have "rat_of_int volume * bn \<le> 100 * 1"
    using assms by (intro mult_mono) simp_all
  ultimately have "rnd 0 \<le> fmul (of_int volume) bn" "fmul (of_int volume) bn \<le> rnd 100"
    unfolding fmul_def by (intro rnd_mono; simp)+
  then have "round_half_away 0 \<le> round_half_away (fmul (of_int volume) bn)"
    "round_half_away (fmul (of_int volume) bn) \<le> round_half_away 100"
    by (simp_all add: rnd_0 rnd_100 round_half_away_mono)
  then have r: "0 \<le> round_half_away (fmul (of_int volume) bn)"
    "round_half_away (fmul (of_int volume) bn) \<le> 100"
    using round_half_away_of_int [of 0] round_half_away_of_int [of 100] by simp_all
  then have "lround (fmul (of_int volume) bn) = round_half_away (fmul (of_int volume) bn)"
    by (intro lround_eq) (simp_all add: LONG_MIN_def LONG_MAX_def)
  then show "0 \<le> lround (fmul (of_int volume) bn)" and "lround (fmul (of_int volume) bn) \<le> 100"
    using r by simp_all
qed

lemma AMVolume_getVolume_range:
  "0 \<le> fst (AMVolume_getVolume v hw)" "fst (AMVolume_getVolume v hw) \<le> 100"
  using VolumeController_getVolume_range [of "leftVolumeController v" hw]
    VolumeController_getVolume_range [of "rightVolumeController v" hw]
    VolumeController_getVolume_range [of "monoVolumeController v" hw]
  by (simp_all add: AMVolume_getVolume_eq le_max_iff_disj)

lemma setVolume_0_getVolume:
  "fst (VolumeController_getVolume c (VolumeController_setVolume c 0 hw)) = 0"
proof -
  have z: "long_add m (lround (fmul (clamp (fdiv (double_of_int 0) 100) 0 1) d)) = long_add m 0" for m d
    by (simp add: double_of_int_def fdiv_def fmul_def rnd_0 clamp_def lround_0)
  have b: "long_sub (long_add m 0) m = 0" for m
    by (intro long_sub_add_cancel) (simp_all add: LONG_MIN_def LONG_MAX_def)
  have r: "clamp (int_of_long (lround (fmul (fdiv (double_of_int 0) d) 100))) 0 100 = 0" for d
    by (simp add: double_of_int_def fdiv_def fmul_def rnd_0 clamp_def int_of_long_def lround_0)
  show ?thesis
  proof (cases c)
    case (VolumeControllerDb el ch mn mx rg)
    then show ?thesis
      by (cases el)
        (simp_all add: Let_def z b r snd_mixer_selem_set_playback_dB_def
          snd_mixer_selem_get_playback_dB_def)
  next
    case (VolumeControllerLinear el ch mn mx rg)
    then show ?thesis
      by (cases el)
        (simp_all add: Let_def z b r snd_mixer_selem_set_playback_volume_def
          snd_mixer_selem_get_playback_volume_def)
  next
    case (VolumeControllerDummy el ch)
    then show ?thesis by simp
  qed
qed

lemma AMVolume_setBalance_stereo:
  assumes "hasLeft v" and "hasRight v"
  shows "AMVolume_setBalance v balance hw =
     (let b = clamp balance (- 100) 100;
          volume = fst (AMVolume_getVolume v hw);
          other = lround (fmul (of_int volume) (fdiv (of_int (100 - \<bar>b\<bar>)) 100))
      in VolumeController_setVolume (rightVolumeController v) (if b < 0 then other else volume)
           (VolumeController_setVolume (leftVolumeController v) (if 0 < b then other else volume) hw))"
proof -
  define b where "b = clamp balance (- 100) 100"
  define k where "k = \<bar>b\<bar>"
  define volume where "volume = fst (AMVolume_getVolume v hw)"
  define bn where "bn = fdiv (of_int (100 - k)) 100"
  have k: "0 \<le> k" "k \<le> 100"
    by (auto simp: k_def b_def clamp_def)
  have vol: "0 \<le> volume" "volume \<le> 100"
    by (simp_all add: volume_def AMVolume_getVolume_range)
  have bn: "fdiv (fsub 100 (double_of_int k)) 100 = bn"
    using k by (simp add: bn_def fsub_100_small)
  have V: "double_of_int volume = of_int volume"
    using vol by (intro double_of_int_small) simp
  have "0 \<le> lround (fmul (of_int volume) bn)" "lround (fmul (of_int volume) bn) \<le> 100"
    using scaled_volume_range [OF vol balanceNorm_range [OF k]] by (simp_all add: bn_def)
  then have other: "int_of_long (lround (fmul (of_int volume) bn)) = lround (fmul (of_int volume) bn)"
    by (intro int_of_long_small) simp_all
  have g: "AMVolume_getVolume v hw = (volume, hw)"
    by (subst AMVolume_getVolume_eq) (simp add: volume_def AMVolume_getVolume_eq)
  have "AMVolume_setBalance v balance hw =
      (if b < 0 then
         VolumeController_setVolume (rightVolumeController v)
           (int_of_long (lround (fmul (double_of_int volume) (fdiv (fsub 100 (double_of_int k)) 100))))
           (VolumeController_setVolume (leftVolumeController v) volume hw)
       else if 0 < b then
         VolumeController_setVolume (rightVolumeController v) volume
           (VolumeController_setVolume (leftVolumeController v)
             (int_of_long (lround (fmul (double_of_int volume) (fdiv (fsub 100 (double_of_int k)) 100)))) hw)
       else
         VolumeController_setVolume (rightVolumeController v) volume
           (VolumeController_setVolume (leftVolumeController v) volume hw))"
    unfolding AMVolume_setBalance_def Let_def g k_def b_def
    using assms by simp
  also have "\<dots> =
      VolumeController_setVolume (rightVolumeController v)
        (if b < 0 then lround (fmul (of_int volume) bn) else volume)
        (VolumeController_setVolume (leftVolumeController v)
          (if 0 < b then lround (fmul (of_int volume) bn) else volume) hw)"
    unfolding bn V other by simp
  finally show ?thesis
    unfolding Let_def bn_def k_def b_def volume_def .
qed

text \<open>
  Claim C4, amended. On a stereo ChannelVolume, for every balance input, \<open>setBalance\<close> clamps
  the balance to [-100,100], takes the current overall volume from \<open>getVolume()\<close> before it
  writes anything, and then sets first the left and then the right controller: the louder
  side (the left one for a negative balance, the right one for a positive balance, both for
  balance 0) to that volume and the other side to
  \<open>lround(volume * ((100 - |balance|) / 100.0))\<close>, where the quotient is rounded to a double
  and the product of the volume with it is rounded to a double again, before \<open>lround\<close>. After
  \<open>setBalance(-100)\<close> the right controller reads 0. On a channel that is not stereo
  \<open>setBalance\<close> changes nothing.
\<close>

theorem C4_setBalance:
  "(hasLeft v \<and> hasRight v \<longrightarrow>
      AMVolume_setBalance v balance hw =
        (let b = clamp balance (- 100) 100;
             volume = fst (AMVolume_getVolume v hw);
             other = lround (fmul (of_int volume) (fdiv (of_int (100 - \<bar>b\<bar>)) 100))
         in VolumeController_setVolume (rightVolumeController v) (if b < 0 then other else volume)
              (VolumeController_setVolume (leftVolumeController v) (if 0 < b then other else volume) hw))
      \<and> fst (VolumeController_getVolume (rightVolumeController v)
            (AMVolume_setBalance v (- 100) hw)) = 0)
   \<and> (\<not> (hasLeft v \<and> hasRight v) \<longrightarrow> AMVolume_setBalance v balance hw = hw)"
proof -
  have "fst (VolumeController_getVolume (rightVolumeController v)
      (AMVolume_setBalance v (- 100) hw)) = 0" if "hasLeft v" "hasRight v"
    by (simp add: AMVolume_setBalance_stereo [OF that] Let_def clamp_def fdiv_def fmul_def rnd_0
      lround_0 setVolume_0_getVolume)
  then show ?thesis
    using AMVolume_setBalance_stereo [of v balance hw]
    by (auto simp: AMVolume_setBalance_def)
qed


section \<open>VolumeController::getVolume\<close>

lemma percentage_in_range:
  assumes "0 \<le> d" and "d \<le> r" and "0 < r"
  shows "0 \<le> lround (fmul (fdiv (double_of_int d) (double_of_int r)) 100)"
    and "lround (fmul (fdiv (double_of_int d) (double_of_int r)) 100) \<le> 100"
proof -
  let ?D = "double_of_int d" and ?R = "double_of_int r"
  have R: "0 < ?R"
    using assms(3) rnd_pos_pos [of "of_int r"] by (simp add: double_of_int_def)
  have D: "0 \<le> ?D" "?D \<le> ?R"
    using assms double_of_int_mono [of 0 d] double_of_int_mono [of d r]
    by (simp_all add: double_of_int_small)
  have "0 \<le> ?D / ?R" "?D / ?R \<le> 1"
    using D R by simp_all
  then have q: "0 \<le> fdiv ?D ?R" "fdiv ?D ?R \<le> 1"
    using rnd_mono [of 0 "?D / ?R"] rnd_mono [of "?D / ?R" 1] by (simp_all add: fdiv_def rnd_0 rnd_1)
  then have "0 \<le> fdiv ?D ?R * 100" "fdiv ?D ?R * 100 \<le> 100"
    by simp_all
  then have "0 \<le> fmul (fdiv ?D ?R) 100" "fmul (fdiv ?D ?R) 100 \<le> 100"
    using rnd_mono [of 0 "fdiv ?D ?R * 100"] rnd_mono [of "fdiv ?D ?R * 100" 100]
    by (simp_all add: fmul_def rnd_0 rnd_100)
  then have r: "0 \<le> round_half_away (fmul (fdiv ?D ?R) 100)"
    "round_half_away (fmul (fdiv ?D ?R) 100) \<le> 100"
    using round_half_away_mono [of 0 "fmul (fdiv ?D ?R) 100"]
      round_half_away_mono [of "fmul (fdiv ?D ?R) 100" 100] round_half_away_of_int [of 100]
    by (simp_all add: round_half_away_0)
  then have "lround (fmul (fdiv ?D ?R) 100) = round_half_away (fmul (fdiv ?D ?R) 100)"
    by (intro lround_eq) (simp_all add: LONG_MIN_def LONG_MAX_def)
  then show "0 \<le> lround (fmul (fdiv ?D ?R) 100)" and "lround (fmul (fdiv ?D ?R) 100) \<le> 100"
    using r by simp_all
qed

text \<open>
  Where \<open>getVolume\<close> does what the formula says: no usable range or a failed read give 0; a
  level inside the cached range gives the rounded percentage itself, which then lies in
  [0,100]; and whenever the rounded percentage fits in an \<open>int\<close>, the result is that
  percentage clamped to [0,100].
\<close>

lemma VolumeController_getVolume_cases:
  "fst (VolumeController_getVolume (VolumeControllerDb (Some e) ch dbMin dbMax dbRange) hw) =
     (if dbRange \<le> 0 then 0
      else case playback_dB hw (e, ch) of
        None \<Rightarrow> 0
      | Some dB \<Rightarrow> clamp (int_of_long (lround
          (fmul (fdiv (double_of_int (long_sub dB dbMin)) (double_of_int dbRange)) 100))) 0 100)"
  "fst (VolumeController_getVolume (VolumeControllerLinear (Some e) ch volMin volMax volRange) hw) =
     (if volRange \<le> 0 then 0
      else case playback_volume hw (e, ch) of
        None \<Rightarrow> 0
      | Some vol \<Rightarrow> clamp (int_of_long (lround
          (fmul (fdiv (double_of_int (long_sub vol volMin)) (double_of_int volRange)) 100))) 0 100)"
  by (simp_all add: snd_mixer_selem_get_playback_dB_def snd_mixer_selem_get_playback_volume_def
      Let_def split: option.splits)

lemma VolumeController_getVolume_in_range:
  assumes "0 < rng" and "rng \<le> LONG_MAX" and "minimum \<le> native" and "native \<le> minimum + rng"
  shows "playback_dB hw (e, ch) = Some native \<Longrightarrow>
      fst (VolumeController_getVolume (VolumeControllerDb (Some e) ch minimum maximum rng) hw) =
        lround (fmul (fdiv (double_of_int (native - minimum)) (double_of_int rng)) 100)"
    and "playback_volume hw (e, ch) = Some native \<Longrightarrow>
      fst (VolumeController_getVolume (VolumeControllerLinear (Some e) ch minimum maximum rng) hw) =
        lround (fmul (fdiv (double_of_int (native - minimum)) (double_of_int rng)) 100)"
proof -
  let ?L = "lround (fmul (fdiv (double_of_int (native - minimum)) (double_of_int rng)) 100)"
  have s: "long_sub native minimum = native - minimum"
    using assms by (simp add: long_sub_def long_of_int_id LONG_MIN_def)
  have L: "0 \<le> ?L" "?L \<le> 100"
    using percentage_in_range [of "native - minimum" rng] assms by simp_all
  then have "int_of_long ?L = ?L"
    by (intro int_of_long_small) simp_all
  then have c: "clamp (int_of_long ?L) 0 100 = ?L"
    using L by (simp add: clamp_def)
  show "playback_dB hw (e, ch) = Some native \<Longrightarrow>
      fst (VolumeController_getVolume (VolumeControllerDb (Some e) ch minimum maximum rng) hw) = ?L"
    using assms(1) c s
      by (simp add: VolumeController_getVolume_cases del: VolumeController_getVolume.simps)
  show "playback_volume hw (e, ch) = Some native \<Longrightarrow>
      fst (VolumeController_getVolume (VolumeControllerLinear (Some e) ch minimum maximum rng) hw) = ?L"
    using assms(1) c s
      by (simp add: VolumeController_getVolume_cases del: VolumeController_getVolume.simps)
qed

lemma VolumeController_getVolume_fits_int:
  assumes "0 < rng"
    and "- (2 ^ 31) \<le> lround (fmul (fdiv (double_of_int (long_sub native minimum)) (double_of_int rng)) 100)"
    and "lround (fmul (fdiv (double_of_int (long_sub native minimum)) (double_of_int rng)) 100) < 2 ^ 31"
  shows "playback_dB hw (e, ch) = Some native \<Longrightarrow>
      fst (VolumeController_getVolume (VolumeControllerDb (Some e) ch minimum maximum rng) hw) =
        clamp (lround (fmul (fdiv (double_of_int (long_sub native minimum)) (double_of_int rng)) 100)) 0 100"
    and "playback_volume hw (e, ch) = Some native \<Longrightarrow>
      fst (VolumeController_getVolume (VolumeControllerLinear (Some e) ch minimum maximum rng) hw) =
        clamp (lround (fmul (fdiv (double_of_int (long_sub native minimum)) (double_of_int rng)) 100)) 0 100"
  using assms
  by (simp_all add: VolumeController_getVolume_cases int_of_long_small
      del: VolumeController_getVolume.simps)

text \<open>
  Claim C3 at a hardware level far above the range: with the range [0, 100] and the level
  \<open>2^31\<close>, the rounded percentage is \<open>2147483648\<close>; its conversion to \<open>int\<close> is
  \<open>-2147483648\<close>, which is clamped to 0, where the claim's formula clamps the rounded
  percentage itself, to 100.
\<close>

theorem C3_getVolume_wraps:
  "monoVolumeController mic = VolumeControllerLinear (Some 3) 0 0 100 100
   \<and> fst (VolumeController_getVolume (monoVolumeController mic)
        (snd_mixer_selem_set_playback_volume 3 0 2147483648 mic_hw)) = 0
   \<and> clamp (lround (fmul (fdiv (double_of_int (2147483648 - 0)) (double_of_int 100)) 100)) 0 100 = 100"
  by code_simp


section \<open>The claims on the example hardware\<close>

lemma speaker_stereo: "hasLeft speaker \<and> hasRight speaker"
  by code_simp

lemma mic_mono: "\<not> (hasLeft mic \<and> hasRight mic)"
  by code_simp

text \<open>C4 on the stereo speaker and on the mono microphone.\<close>

theorem C4_setBalance_witness:
  "hasLeft speaker \<and> hasRight speaker
   \<and> fst (VolumeController_getVolume (rightVolumeController speaker)
        (AMVolume_setBalance speaker (- 100) speaker_hw)) = 0
   \<and> \<not> (hasLeft mic \<and> hasRight mic)
   \<and> AMVolume_setBalance mic (- 100) mic_hw = mic_hw"
  using C4_setBalance [of speaker "- 100" speaker_hw] C4_setBalance [of mic "- 100" mic_hw]
    speaker_stereo mic_mono
  by blast

text \<open>C6 on the stereo speaker and on the mono microphone.\<close>

theorem C6_getBalance_witness:
  "hasLeft speaker \<and> hasRight speaker
   \<and> fst (AMVolume_getBalance speaker speaker_hw) =
       fst (VolumeController_getVolume (rightVolumeController speaker) speaker_hw)
     - fst (VolumeController_getVolume (leftVolumeController speaker) speaker_hw)
   \<and> \<not> (hasLeft mic \<and> hasRight mic)
   \<and> fst (AMVolume_getBalance mic mic_hw) = 0"
  using C6_getBalance [of speaker speaker_hw] C6_getBalance [of mic mic_hw] speaker_stereo mic_mono
  by simp

text \<open>C8 on the stereo speaker.\<close>

theorem C8_clamps_witness:
  "AMVolume_setVolume speaker 150 speaker_hw = AMVolume_setVolume speaker 100 speaker_hw
   \<and> AMVolume_setBalance speaker (- 150) speaker_hw = AMVolume_setBalance speaker (- 100) speaker_hw"
  using C8_clamps [of speaker 150 speaker_hw "- 150"] by blast

lemma mic_right_apart:
  "controller_cells (rightVolumeController mic) \<inter> controller_cells (monoVolumeController mic) = {}"
  by code_simp

text \<open>C10, as amended, on the mono microphone and on the stereo speaker.\<close>

theorem C10_frame_witness:
  "\<not> (hasLeft mic \<and> hasRight mic)
   \<and> writes_only (controller_cells (monoVolumeController mic)) mic_hw (AMVolume_setVolume mic 50 mic_hw)
   \<and> controller_cells (rightVolumeController mic) \<inter> controller_cells (monoVolumeController mic) = {}
   \<and> fst (VolumeController_getVolume (rightVolumeController mic) (AMVolume_setVolume mic 50 mic_hw)) =
       fst (VolumeController_getVolume (rightVolumeController mic) mic_hw)
   \<and> hasLeft speaker \<and> hasRight speaker
   \<and> writes_only (controller_cells (leftVolumeController speaker) \<union> controller_cells (rightVolumeController speaker))
        speaker_hw (AMVolume_setVolume speaker 100 speaker_hw)"
  using C10_frame [of mic mic_hw 50 0] C10_frame [of speaker speaker_hw 100 0] speaker_stereo mic_mono
    mic_right_apart
  by blast

text \<open>
  Claim C10 as stated also says that \<open>setVolume\<close> on a mono channel leaves the hardware
  state of the left controller unchanged, and that \<open>setVolume\<close> on a stereo channel leaves
  that of the mono controller unchanged. The mono and the left controller of a
  ChannelVolume are built for the selectors \<open>SND_MIXER_SCHN_MONO\<close> and
  \<open>SND_MIXER_SCHN_FRONT_LEFT\<close>, which are the same selector, so they address the same cell:
  on the microphone, the left controller reads 20 before \<open>setVolume(50)\<close> and 50 after it;
  on the speaker, the mono controller reads 50 before \<open>setVolume(100)\<close> and 75 after it.
\<close>

theorem C10_mono_is_left_counterexample:
  "\<not> (hasLeft mic \<and> hasRight mic)
   \<and> fst (VolumeController_getVolume (leftVolumeController mic) mic_hw) = 20
   \<and> fst (VolumeController_getVolume (leftVolumeController mic) (AMVolume_setVolume mic 50 mic_hw)) = 50
   \<and> hasLeft speaker \<and> hasRight speaker
   \<and> fst (VolumeController_getVolume (monoVolumeController speaker) speaker_hw) = 50
   \<and> fst (VolumeController_getVolume (monoVolumeController speaker)
        (AMVolume_setVolume speaker 100 speaker_hw)) = 75"
  by code_simp


text \<open>C2, as amended, on the left controller of the speaker.\<close>

theorem C2_setVolume_witness:
  "leftVolumeController speaker = VolumeControllerDb (Some 7) 0 (- 5100) 0 5100
   \<and> (0 :: int) < 5100 \<and> (5100 :: int) \<le> 2 ^ 53 \<and> LONG_MIN \<le> - 5100 \<and> - 5100 + 5100 \<le> LONG_MAX
   \<and> VolumeController_setVolume (leftVolumeController speaker) 50 speaker_hw =
       snd_mixer_selem_set_playback_dB 7 0 (- 2550) speaker_hw
   \<and> (0 :: int) \<le> 0
   \<and> VolumeController_setVolume (VolumeControllerDb (Some 7) 0 (- 5100) 0 0) 50 speaker_hw = speaker_hw"
proof -
  have c: "leftVolumeController speaker = VolumeControllerDb (Some 7) 0 (- 5100) 0 5100"
    by code_simp
  have v: "round_half_away (fmul (fdiv (double_of_int (clamp 50 0 100)) 100) (double_of_int 5100)) = 2550"
    by code_simp
  have b: "(0 :: int) < 5100" "(5100 :: int) \<le> 2 ^ 53" "LONG_MIN \<le> - 5100" "- 5100 + 5100 \<le> LONG_MAX"
    by (simp_all add: LONG_MIN_def LONG_MAX_def)
  note t = C2_setVolume [OF b, where e = 7 and ch = 0 and maximum = 0 and volume = 50
      and hw = speaker_hw]
  have "VolumeController_setVolume (VolumeControllerDb (Some 7) 0 (- 5100) 0 5100) 50 speaker_hw =
      snd_mixer_selem_set_playback_dB 7 0
        (- 5100 + round_half_away (fmul (fdiv (double_of_int (clamp 50 0 100)) 100) (double_of_int 5100)))
        speaker_hw"
    using t by blast
  moreover have "VolumeController_setVolume (VolumeControllerDb (Some 7) 0 (- 5100) 0 0) 50 speaker_hw
      = speaker_hw"
    using t by blast
  ultimately show ?thesis
    using b by (simp add: c v)
qed

text \<open>
  Claim C2 as stated has \<open>min + round(fraction * range)\<close> with halfway cases away from zero.
  On the element with the linear range of 0 to 25, 58 percent of the range is 14.5, which
  rounds to 15; \<open>setVolume(58)\<close> writes 14, since the double nearest to 0.58 is below 0.58 and
  the double product is below 14.5.
\<close>

theorem C2_tie_counterexample:
  "create tick_hw (Some 9) SND_MIXER_SCHN_MONO = VolumeControllerLinear (Some 9) 0 0 25 25
   \<and> playback_volume
        (VolumeController_setVolume (create tick_hw (Some 9) SND_MIXER_SCHN_MONO) 58 tick_hw) (9, 0)
       = Some 14
   \<and> 0 + round_half_away (of_int (clamp 58 0 100) / 100 * of_int 25) = 15"
  by code_simp

text \<open>
  Claim C4 as stated sets the quieter side to \<open>round(volume * (100 - |balance|) / 100)\<close>. On
  the stereo line element the overall volume is 25; at balance -42 that formula gives
  \<open>round(14.5) = 15\<close>, and \<open>setBalance(-42)\<close> sets the right controller to 14, which writes
  level 14 where 15 would have written level 15.
\<close>

theorem C4_tie_counterexample:
  "hasLeft line \<and> hasRight line
   \<and> fst (AMVolume_getVolume line line_hw) = 25
   \<and> clamp (- 42) (- 100) 100 = (- 42 :: int)
   \<and> round_half_away (of_int 25 * of_int (100 - \<bar>- 42\<bar>) / 100) = 15
   \<and> playback_volume (AMVolume_setBalance line (- 42) line_hw) (11, 0) = Some 25
   \<and> playback_volume (AMVolume_setBalance line (- 42) line_hw) (11, 1) = Some 14
   \<and> playback_volume (VolumeController_setVolume (rightVolumeController line) 15 line_hw) (11, 1)
       = Some 15"
  by code_simp

end
